theory Spec2Isabelle
  imports Complex_Main
begin

section \<open>Errors\<close>

text \<open>
  Exceptions of the Python program are values. \<open>PlaywrightTimeout\<close> is the timeout
  error of the browser engine, \<open>PlaywrightError\<close> any other exception an engine call
  raises.
\<close>

datatype py_error = ZeroDivisionError | ValueError | PlaywrightTimeout | PlaywrightError

section \<open>Raster images and the PDF canvas\<close>

text \<open>
  A decoded bitmap (\<open>PIL.Image\<close>): its width in pixels and its scanlines, top row
  first; the height is the number of scanlines.
\<close>

type_synonym scanline = "nat list"

record image =
  img_width :: nat
  img_rows :: "scanline list"

definition img_height :: "image \<Rightarrow> nat" where
  "img_height img = length (img_rows img)"

text \<open>
  \<open>img.crop((0, upper, width, lower))\<close> for a box that lies inside the image: the
  scanlines \<open>upper \<le> y < lower\<close>.
\<close>

definition crop :: "image \<Rightarrow> int \<Rightarrow> int \<Rightarrow> int \<Rightarrow> image" where
  "crop img upper right lower =
     \<lparr>img_width = nat right,
      img_rows = take (nat (lower - upper)) (drop (nat upper) (img_rows img))\<rparr>"

text \<open>
  The part of reportlab's canvas that the program uses: \<open>drawImage\<close> adds an image to
  the page being drawn, \<open>showPage\<close> ends that page, \<open>save\<close> ends a page that
  still has drawings and yields the document.
\<close>

datatype drawing = DrawImage image rat rat rat rat

record canvas =
  pagesize :: "rat \<times> rat"
  page_ops :: "drawing list"
  pages :: "drawing list list"

record pdf =
  pdf_pagesize :: "rat \<times> rat"
  pdf_pages :: "drawing list list"

definition Canvas :: "rat \<times> rat \<Rightarrow> canvas" where
  "Canvas ps = \<lparr>pagesize = ps, page_ops = [], pages = []\<rparr>"

definition drawImage :: "image \<Rightarrow> rat \<Rightarrow> rat \<Rightarrow> rat \<Rightarrow> rat \<Rightarrow> canvas \<Rightarrow> canvas" where
  "drawImage im x y w h c = c\<lparr>page_ops := page_ops c @ [DrawImage im x y w h]\<rparr>"

definition showPage :: "canvas \<Rightarrow> canvas" where
  "showPage c = c\<lparr>page_ops := [], pages := pages c @ [page_ops c]\<rparr>"

definition save :: "canvas \<Rightarrow> pdf" where
  "save c = \<lparr>pdf_pagesize = pagesize c,
             pdf_pages = (if page_ops c = [] then pages c else pages c @ [page_ops c])\<rparr>"

text \<open>What a document shows: the images drawn on its pages, in page order.\<close>

fun drawn_image :: "drawing \<Rightarrow> image" where
  "drawn_image (DrawImage im x y w h) = im"

definition pdf_bands :: "pdf \<Rightarrow> image list" where
  "pdf_bands doc = map drawn_image (concat (pdf_pages doc))"

section \<open>Units\<close>

text \<open>
  Python's floats are binary64. Every floating-point operation of the source is modelled
  as the exact operation on rationals followed by a rounding function \<open>fl\<close>, which is
  a parameter of the model; \<open>fl = (\<lambda>x. x)\<close> is exact arithmetic. Infinities and NaN
  are outside the model.
\<close>

definition CSS_PX_PER_INCH :: rat where
  "CSS_PX_PER_INCH = 96"

definition PDF_POINTS_PER_INCH :: rat where
  "PDF_POINTS_PER_INCH = 72"

definition csspx_to_pdfpt :: "(rat \<Rightarrow> rat) \<Rightarrow> rat \<Rightarrow> rat" where
  "csspx_to_pdfpt fl px = fl (px * fl (PDF_POINTS_PER_INCH / CSS_PX_PER_INCH))"

definition letter :: "rat \<times> rat" where
  "letter = (612, 792)"

definition inch :: rat where
  "inch = 72"

text \<open>Python's \<open>int(x)\<close> on a float truncates towards zero.\<close>

definition py_int :: "rat \<Rightarrow> int" where
  "py_int x = (if 0 \<le> x then \<lfloor>x\<rfloor> else \<lceil>x\<rceil>)"

section \<open>PDF builders for screenshot mode\<close>

definition screenshot_to_singlepage_pdf :: "(rat \<Rightarrow> rat) \<Rightarrow> image \<Rightarrow> pdf" where
  "screenshot_to_singlepage_pdf fl img =
     (let width_px = img_width img;
          height_px = img_height img;
          width_pt = csspx_to_pdfpt fl (of_nat width_px);
          height_pt = csspx_to_pdfpt fl (of_nat height_px);
          c = Canvas (width_pt, height_pt);
          c = drawImage img 0 0 width_pt height_pt c;
          c = showPage c
      in save c)"

text \<open>
  The quantities \<open>screenshot_to_paginated_letter_pdf\<close> computes before its loop.
  A float division by zero raises \<open>ZeroDivisionError\<close>.
\<close>

record geometry =
  margin_pt :: rat
  page_h_pt :: rat
  content_w_pt :: rat
  scale :: rat
  native_px_per_page :: int

definition letter_geometry :: "(rat \<Rightarrow> rat) \<Rightarrow> nat \<Rightarrow> rat \<Rightarrow> py_error + geometry" where
  "letter_geometry fl width_px margin_in =
     (let (page_w_pt, page_h_pt) = letter;
          margin_pt = fl (margin_in * inch);
          content_w_pt = fl (page_w_pt - fl (2 * margin_pt));
          content_h_pt = fl (page_h_pt - fl (2 * margin_pt));
          width_pt_native = csspx_to_pdfpt fl (of_nat width_px)
      in if width_pt_native = 0 then Inl ZeroDivisionError
         else let scale = fl (content_w_pt / width_pt_native)
           in if scale = 0 then Inl ZeroDivisionError
              else let native_pt_per_page = fl (content_h_pt / scale);
                       native_px_per_page =
                         py_int (fl (native_pt_per_page * fl (CSS_PX_PER_INCH / PDF_POINTS_PER_INCH)));
                       native_px_per_page = max 1 native_px_per_page
                in Inr \<lparr>margin_pt = margin_pt, page_h_pt = page_h_pt,
                         content_w_pt = content_w_pt, scale = scale,
                         native_px_per_page = native_px_per_page\<rparr>)"

text \<open>
  The \<open>while y_top_px < height_px\<close> loop. A loop that does not end has the value
  \<open>None\<close>.
\<close>

partial_function (option) slice_loop ::
  "(rat \<Rightarrow> rat) \<Rightarrow> image \<Rightarrow> geometry \<Rightarrow> int \<Rightarrow> canvas \<Rightarrow> canvas option" where
  "slice_loop fl img g y_top_px c =
     (if y_top_px < int (img_height img) then
        (let y_bottom_px = min (int (img_height img)) (y_top_px + native_px_per_page g);
             tile = crop img y_top_px (int (img_width img)) y_bottom_px;
             tile_h_pt = fl (csspx_to_pdfpt fl (of_nat (img_height tile)) * scale g);
             x_pt = margin_pt g;
             y_pt = fl (fl (page_h_pt g - margin_pt g) - tile_h_pt);
             c = drawImage tile x_pt y_pt (content_w_pt g) tile_h_pt c;
             c = showPage c
         in slice_loop fl img g y_bottom_px c)
      else Some c)"

declare slice_loop.simps [code]

definition screenshot_to_paginated_letter_pdf ::
  "(rat \<Rightarrow> rat) \<Rightarrow> image \<Rightarrow> rat \<Rightarrow> (py_error + pdf) option" where
  "screenshot_to_paginated_letter_pdf fl img margin_in =
     (case letter_geometry fl (img_width img) margin_in of
        Inl e \<Rightarrow> Some (Inl e)
      | Inr g \<Rightarrow>
          (case slice_loop fl img g 0 (Canvas letter) of
             None \<Rightarrow> None
           | Some c \<Rightarrow> Some (Inr (save c))))"

section \<open>Strings\<close>

text \<open>
  Python strings are modelled as lists of 8-bit characters, read as the code points
  U+0000 to U+00FF; code points above U+00FF are outside the model. Whitespace and case
  mapping are those of Python on that range.
\<close>

definition is_space :: "char \<Rightarrow> bool" where
  "is_space c =
     (let n = (of_char c :: nat)
      in (9 \<le> n \<and> n \<le> 13) \<or> (28 \<le> n \<and> n \<le> 32) \<or> n = 133 \<or> n = 160)"

definition is_upper :: "char \<Rightarrow> bool" where
  "is_upper c =
     (let n = (of_char c :: nat)
      in (65 \<le> n \<and> n \<le> 90) \<or> (192 \<le> n \<and> n \<le> 222 \<and> n \<noteq> 215))"

definition lower_char :: "char \<Rightarrow> char" where
  "lower_char c = (if is_upper c then char_of (of_char c + (32 :: nat)) else c)"

definition lower :: "string \<Rightarrow> string" where
  "lower s = map lower_char s"

text \<open>\<open>s.lstrip(chars)\<close>, \<open>s.rstrip(chars)\<close>, \<open>s.strip(chars)\<close> and \<open>s.strip()\<close>.\<close>

definition lstrip_chars :: "string \<Rightarrow> string \<Rightarrow> string" where
  "lstrip_chars chars s = dropWhile (\<lambda>c. c \<in> set chars) s"

definition rstrip_chars :: "string \<Rightarrow> string \<Rightarrow> string" where
  "rstrip_chars chars s = rev (dropWhile (\<lambda>c. c \<in> set chars) (rev s))"

definition strip_chars :: "string \<Rightarrow> string \<Rightarrow> string" where
  "strip_chars chars s = rstrip_chars chars (lstrip_chars chars s)"

definition strip :: "string \<Rightarrow> string" where
  "strip s = rev (dropWhile is_space (rev (dropWhile is_space s)))"

text \<open>\<open>s.replace(old, new)\<close> for a one-character \<open>old\<close>.\<close>

definition replace :: "char \<Rightarrow> string \<Rightarrow> string \<Rightarrow> string" where
  "replace old new s = concat (map (\<lambda>c. if c = old then new else [c]) s)"

definition startswith :: "string \<Rightarrow> string \<Rightarrow> bool" where
  "startswith s p = (take (length p) s = p)"

definition endswith :: "string \<Rightarrow> string \<Rightarrow> bool" where
  "endswith s p = (length p \<le> length s \<and> drop (length s - length p) s = p)"

text \<open>
  \<open>re.sub(r'[...]+', repl, s)\<close> for a character class: every maximal run of
  characters of the class is replaced by \<open>repl\<close>.
\<close>

function sub_runs :: "(char \<Rightarrow> bool) \<Rightarrow> string \<Rightarrow> string \<Rightarrow> string" where
  "sub_runs cls repl [] = []"
| "sub_runs cls repl (c # cs) =
     (if cls c then repl @ sub_runs cls repl (dropWhile cls cs)
      else c # sub_runs cls repl cs)"
  by pat_completeness auto
termination
  by (relation "measure (\<lambda>(cls, repl, s). length s)")
     (auto simp: less_Suc_eq_le length_dropWhile_le)

section \<open>File names\<close>

text \<open>The class \<open>[<>:"/\\|?*\x00-\x1F]\<close> of \<open>sanitize_filename_component\<close>.\<close>

definition illegal_char :: "char \<Rightarrow> bool" where
  "illegal_char c =
     (c \<in> {CHR ''<'', CHR ''>'', CHR '':'', CHR 0x22, CHR ''/'', CHR 0x5C, CHR ''|'', CHR ''?'',
            CHR ''*''}
      \<or> (of_char c :: nat) \<le> 31)"

definition sanitize_filename_component :: "string \<Rightarrow> string" where
  "sanitize_filename_component s0 =
     (let s = strip s0;
          s = sub_runs illegal_char ''_'' s;
          s = sub_runs (\<lambda>c. c = CHR ''_'') ''_'' s;
          s = strip_chars ''_'' s
      in if s = [] then ''file'' else s)"

subsection \<open>The URL parser of the standard library\<close>

text \<open>
  \<open>urllib.parse.urlparse\<close> is not part of the program; it is modelled after the
  library (CPython 3.12): leading C0 control characters and spaces are stripped, tabs and
  line breaks are removed, then the scheme, the network location, the fragment, the query
  and the parameters of the last path segment are split off in this order. The library
  raises \<open>ValueError\<close> for a network location with unbalanced square brackets; whether
  it accepts a bracketed host or a network location outside ASCII is decided by address
  parsing and Unicode normalisation, which are the parameter \<open>valid\<close> here.
\<close>

record parse_result =
  scheme :: string
  netloc :: string
  path :: string
  params :: string
  query :: string
  fragment :: string

definition is_ascii_alpha :: "char \<Rightarrow> bool" where
  "is_ascii_alpha c =
     (let n = (of_char c :: nat) in (65 \<le> n \<and> n \<le> 90) \<or> (97 \<le> n \<and> n \<le> 122))"

definition is_scheme_char :: "char \<Rightarrow> bool" where
  "is_scheme_char c =
     (let n = (of_char c :: nat)
      in is_ascii_alpha c \<or> (48 \<le> n \<and> n \<le> 57) \<or> c \<in> {CHR ''+'', CHR ''-'', CHR ''.''})"

definition url_clean :: "string \<Rightarrow> string" where
  "url_clean url =
     filter (\<lambda>c. c \<notin> {CHR 0x09, CHR 0x0D, CHR 0x0A})
       (dropWhile (\<lambda>c. (of_char c :: nat) \<le> 32) url)"

definition split_scheme :: "string \<Rightarrow> string \<times> string" where
  "split_scheme url =
     (let pre = takeWhile (\<lambda>c. c \<noteq> CHR '':'') url
      in if length pre < length url \<and> pre \<noteq> [] \<and> is_ascii_alpha (hd pre)
            \<and> list_all is_scheme_char pre
         then (lower pre, drop (Suc (length pre)) url)
         else ([], url))"

definition split_netloc :: "string \<Rightarrow> string \<times> string" where
  "split_netloc url =
     (if take 2 url = ''//''
      then (takeWhile (\<lambda>c. c \<notin> {CHR ''/'', CHR ''?'', CHR ''#''}) (drop 2 url),
            dropWhile (\<lambda>c. c \<notin> {CHR ''/'', CHR ''?'', CHR ''#''}) (drop 2 url))
      else ([], url))"

definition netloc_ok :: "(string \<Rightarrow> bool) \<Rightarrow> string \<Rightarrow> bool" where
  "netloc_ok valid nl =
     (if (CHR ''['' \<in> set nl) \<noteq> (CHR '']'' \<in> set nl) then False
      else if CHR ''['' \<in> set nl \<or> (\<exists>c \<in> set nl. (of_char c :: nat) > 127) then valid nl
      else True)"

definition uses_params :: "string list" where
  "uses_params = [[], ''ftp'', ''hdl'', ''prospero'', ''http'', ''imap'', ''https'', ''shttp'',
     ''rtsp'', ''rtspu'', ''sip'', ''sips'', ''mms'', ''sftp'', ''tel'']"

definition split_params :: "string \<Rightarrow> string \<times> string" where
  "split_params url =
     (let dirs = rev (dropWhile (\<lambda>c. c \<noteq> CHR ''/'') (rev url));
          seg = rev (takeWhile (\<lambda>c. c \<noteq> CHR ''/'') (rev url))
      in (dirs @ takeWhile (\<lambda>c. c \<noteq> CHR '';'') seg,
          drop 1 (dropWhile (\<lambda>c. c \<noteq> CHR '';'') seg)))"

definition urlparse :: "(string \<Rightarrow> bool) \<Rightarrow> string \<Rightarrow> py_error + parse_result" where
  "urlparse valid url0 =
     (let (scheme, url) = split_scheme (url_clean url0);
          (netloc, url) = split_netloc url;
          fragment = drop 1 (dropWhile (\<lambda>c. c \<noteq> CHR ''#'') url);
          url = takeWhile (\<lambda>c. c \<noteq> CHR ''#'') url;
          query = drop 1 (dropWhile (\<lambda>c. c \<noteq> CHR ''?'') url);
          url = takeWhile (\<lambda>c. c \<noteq> CHR ''?'') url;
          (url, params) = (if scheme \<in> set uses_params then split_params url else (url, []))
      in if netloc_ok valid netloc
         then Inr \<lparr>scheme = scheme, netloc = netloc, path = url, params = params,
                   query = query, fragment = fragment\<rparr>
         else Inl ValueError)"

text \<open>The characters that start the query and the fragment of a URL.\<close>

definition qf_char :: "char \<Rightarrow> bool" where
  "qf_char c \<longleftrightarrow> c = CHR ''?'' \<or> c = CHR ''#''"

subsection \<open>\<open>url_to_filename\<close>\<close>

text \<open>The body of \<open>url_to_filename\<close> once \<open>parsed\<close> is bound.\<close>

definition filename_of_parsed :: "parse_result \<Rightarrow> string" where
  "filename_of_parsed parsed =
     (let host = replace (CHR ''.'') ''_'' (if netloc parsed = [] then ''site'' else netloc parsed);
          path = (if path parsed = [] then ''/'' else path parsed);
          path = (if endswith path ''/'' then butlast path else path);
          path = (if path = [] then ''/index.html'' else path);
          path = lstrip_chars ''/'' path;
          path_part = replace (CHR ''.'') ''_'' (replace (CHR ''/'') ''_'' path);
          base = (if path_part \<noteq> [] then host @ ''_'' @ path_part else host);
          base = sanitize_filename_component base
      in if \<not> endswith (lower base) ''.pdf'' then base @ ''.pdf'' else base)"

definition url_to_filename :: "(string \<Rightarrow> bool) \<Rightarrow> string \<Rightarrow> py_error + string" where
  "url_to_filename valid url =
     (case urlparse valid url of
        Inl e \<Rightarrow> Inl e
      | Inr parsed \<Rightarrow> Inr (filename_of_parsed parsed))"

definition host_of :: "(string \<Rightarrow> bool) \<Rightarrow> string \<Rightarrow> py_error + string" where
  "host_of valid url =
     (case urlparse valid url of
        Inl e \<Rightarrow> Inl e
      | Inr parsed \<Rightarrow> Inr (lower (netloc parsed)))"

section \<open>Per-site overrides\<close>

record SiteRule =
  domain :: string
  css :: string
  js :: string

text \<open>The loop of \<open>match_rules_for_host\<close>, with \<open>out\<close> as its state.\<close>

fun match_loop :: "string \<Rightarrow> SiteRule list \<Rightarrow> SiteRule list \<Rightarrow> SiteRule list" where
  "match_loop host [] out = out"
| "match_loop host (r # rules) out =
     (let d = lstrip_chars ''.'' (domain r)
      in if host = d \<or> endswith host (''.'' @ d)
         then match_loop host rules (out @ [r])
         else match_loop host rules out)"

definition match_rules_for_host :: "SiteRule list \<Rightarrow> string \<Rightarrow> SiteRule list" where
  "match_rules_for_host rules host0 =
     (let host = lower host0 in match_loop host rules [])"

subsection \<open>The regular expression of \<open>parse_site_rules\<close>\<close>

text \<open>
  The pattern is compiled with \<open>re.IGNORECASE | re.DOTALL\<close>. The part of Python's
  regular expressions it uses: literals (compared without regard to case), the classes
  \<open>\s\<close>, \<open>[^\s]\<close> and \<open>.\<close> (any character, under \<open>DOTALL\<close>) under the greedy
  \<open>+\<close> and \<open>*\<close> and the lazy \<open>*?\<close>, greedy optional groups, named groups and
  concatenation.
\<close>

datatype cclass = Space | NotSpace | AnyChar

fun in_class :: "cclass \<Rightarrow> char \<Rightarrow> bool" where
  "in_class Space c = is_space c"
| "in_class NotSpace c = (\<not> is_space c)"
| "in_class AnyChar c = True"

datatype regex =
    Lit string
  | Plus cclass
  | Star cclass
  | StarLazy cclass
  | Opt regex
  | Group string regex
  | Seq regex regex

type_synonym groups = "(string \<times> string) list"

text \<open>
  Python's matcher backtracks: it tries the alternatives of each construct in order of
  priority and keeps the first with which the rest of the pattern matches. The rest of the
  pattern is the continuation \<open>k\<close>, which gets the text not yet consumed and the groups
  captured so far; \<open>None\<close> is a failure, after which the next alternative is tried.
\<close>

fun star_greedy :: "cclass \<Rightarrow> string \<Rightarrow> (string \<Rightarrow> 'r option) \<Rightarrow> 'r option" where
  "star_greedy cls [] k = k []"
| "star_greedy cls (x # xs) k =
     (if in_class cls x
      then (case star_greedy cls xs k of Some r \<Rightarrow> Some r | None \<Rightarrow> k (x # xs))
      else k (x # xs))"

fun star_lazy :: "cclass \<Rightarrow> string \<Rightarrow> (string \<Rightarrow> 'r option) \<Rightarrow> 'r option" where
  "star_lazy cls [] k = k []"
| "star_lazy cls (x # xs) k =
     (case k (x # xs) of
        Some r \<Rightarrow> Some r
      | None \<Rightarrow> if in_class cls x then star_lazy cls xs k else None)"

fun rmatch :: "regex \<Rightarrow> string \<Rightarrow> groups \<Rightarrow> (string \<Rightarrow> groups \<Rightarrow> 'r option) \<Rightarrow> 'r option" where
  "rmatch (Lit l) s g k =
     (if length l \<le> length s \<and> lower (take (length l) s) = lower l
      then k (drop (length l) s) g else None)"
| "rmatch (Plus cls) s g k =
     (case s of
        [] \<Rightarrow> None
      | x # xs \<Rightarrow> if in_class cls x then star_greedy cls xs (\<lambda>s'. k s' g) else None)"
| "rmatch (Star cls) s g k = star_greedy cls s (\<lambda>s'. k s' g)"
| "rmatch (StarLazy cls) s g k = star_lazy cls s (\<lambda>s'. k s' g)"
| "rmatch (Opt r) s g k =
     (case rmatch r s g k of Some res \<Rightarrow> Some res | None \<Rightarrow> k s g)"
| "rmatch (Group name r) s g k =
     rmatch r s g (\<lambda>s' g'. k s' ((name, take (length s - length s') s) # g'))"
| "rmatch (Seq r1 r2) s g k = rmatch r1 s g (\<lambda>s' g'. rmatch r2 s' g' k)"

text \<open>A match at the start of \<open>s\<close>: the text after the match and the groups.\<close>

definition match_here :: "regex \<Rightarrow> string \<Rightarrow> (string \<times> groups) option" where
  "match_here r s = rmatch r s [] (\<lambda>s' g. Some (s', g))"

text \<open>
  \<open>pattern.finditer(text)\<close>: the matches from left to right, each search starting
  where the match before it ended (one character further after an empty match).
\<close>

function finditer :: "regex \<Rightarrow> string \<Rightarrow> groups list" where
  "finditer r s =
     (case match_here r s of
        None \<Rightarrow> (case s of [] \<Rightarrow> [] | x # xs \<Rightarrow> finditer r xs)
      | Some (s', g) \<Rightarrow>
          if length s' < length s then g # finditer r s'
          else (case s of [] \<Rightarrow> [g] | x # xs \<Rightarrow> g # finditer r xs))"
  by pat_completeness auto
termination
  by (relation "measure (\<lambda>(r, s). length s)") auto

text \<open>\<open>m.group(name)\<close>: \<open>None\<close> for a group that took no part in the match.\<close>

definition group :: "groups \<Rightarrow> string \<Rightarrow> string option" where
  "group g name = map_of g name"

text \<open>Does the literal \<open>l\<close> match, without regard to case, somewhere in \<open>s\<close>?\<close>

fun occurs_ci :: "string \<Rightarrow> string \<Rightarrow> bool" where
  "occurs_ci l [] = (l = [])"
| "occurs_ci l (x # xs) =
     ((length l \<le> length (x # xs) \<and> lower (take (length l) (x # xs)) = lower l)
      \<or> occurs_ci l xs)"

definition site_rule_pattern :: regex where
  "site_rule_pattern =
     Seq (Lit ''@domain'')
    (Seq (Plus Space)
    (Seq (Group ''domain'' (Plus NotSpace))
    (Seq (Plus Space)
    (Seq (Opt (Seq (Lit ''CSS:'') (Seq (Star Space) (Group ''css'' (StarLazy AnyChar)))))
    (Seq (Opt (Seq (Plus Space) (Seq (Lit ''JS:'') (Seq (Star Space)
            (Group ''js'' (StarLazy AnyChar))))))
    (Seq (Star Space) (Lit ''@end'')))))))"

text \<open>The body of the \<open>for m in pattern.finditer(text)\<close> loop.\<close>

definition rule_of_match :: "groups \<Rightarrow> SiteRule" where
  "rule_of_match m =
     (let domain = lower (strip (case group m ''domain'' of None \<Rightarrow> [] | Some d \<Rightarrow> d));
          css = strip (case group m ''css'' of None \<Rightarrow> [] | Some c \<Rightarrow> c);
          js = strip (case group m ''js'' of None \<Rightarrow> [] | Some j \<Rightarrow> j)
      in \<lparr>domain = domain, css = css, js = js\<rparr>)"

definition parse_site_rules :: "string \<Rightarrow> SiteRule list" where
  "parse_site_rules text =
     (if strip text = [] then []
      else map rule_of_match (finditer site_rule_pattern text))"

section \<open>CAPTCHA detection\<close>

text \<open>
  What the script of \<open>detect_captcha\<close> reads of the page: the title, the rendered text
  of the body (\<open>None\<close> for a document without a body), and, of the selectors it asks
  for, those that \<open>querySelector\<close> finds an element for.
\<close>

record document =
  doc_title :: string
  doc_body :: "string option"
  doc_selectors :: "string list"

record detection =
  found :: bool
  provider :: string
  signals :: "string list"

text \<open>\<open>s.includes(sub)\<close> of JavaScript (\<open>includes\<close> is a keyword of Isabelle).\<close>

fun str_includes :: "string \<Rightarrow> string \<Rightarrow> bool" where
  "str_includes [] sub = (sub = [])"
| "str_includes (x # xs) sub = (startswith (x # xs) sub \<or> str_includes xs sub)"

text \<open>\<open>if (cond) signals.push(s)\<close>.\<close>

definition push_if :: "bool \<Rightarrow> string \<Rightarrow> string list \<Rightarrow> string list" where
  "push_if cond s sigs = (if cond then sigs @ [s] else sigs)"

text \<open>The script that \<open>detect_captcha\<close> evaluates in the page.\<close>

definition detect_js :: "document \<Rightarrow> detection" where
  "detect_js d =
     (let signals = [];
          title = lower (doc_title d);
          bodyText = lower (case doc_body d of None \<Rightarrow> [] | Some t \<Rightarrow> t);
          sel = (\<lambda>s. s \<in> set (doc_selectors d));
          signals = push_if (str_includes bodyText ''verify you are human'')
                      ''text: verify you are human'' signals;
          signals = push_if (str_includes bodyText ''i'm not a robot''
                             \<or> str_includes bodyText ''im not a robot'')
                      ''text: i'm not a robot'' signals;
          signals = push_if (str_includes bodyText ''checking your browser before accessing'')
                      ''text: checking your browser'' signals;
          signals = push_if (str_includes bodyText ''complete the security check'')
                      ''text: security check'' signals;
          signals = push_if (str_includes title ''just a moment'') ''title: just a moment'' signals;
          signals = push_if (str_includes title ''attention required'')
                      ''title: attention required'' signals;
          signals = push_if (sel ''#cf-challenge'' \<or> sel ''#challenge-form''
                             \<or> sel ''#challenge-stage''
                             \<or> sel ''iframe[src*='challenges.cloudflare.com']''
                             \<or> str_includes bodyText ''cloudflare'')
                      ''cloudflare selectors'' signals;
          signals = push_if (sel ''iframe[src*='www.google.com/recaptcha']''
                             \<or> sel ''.g-recaptcha'' \<or> str_includes bodyText ''recaptcha'')
                      ''recaptcha selectors'' signals;
          signals = push_if (sel ''iframe[src*='hcaptcha.com']''
                             \<or> str_includes bodyText ''hcaptcha'')
                      ''hcaptcha selectors'' signals;
          found = (length signals > 0);
          provider =
            (if \<exists>s \<in> set signals. str_includes s ''cloudflare'' then ''cloudflare''
             else if \<exists>s \<in> set signals. str_includes s ''recaptcha'' then ''recaptcha''
             else if \<exists>s \<in> set signals. str_includes s ''hcaptcha'' then ''hcaptcha''
             else if found then ''generic''
             else ''unknown'')
      in \<lparr>found = found, provider = provider, signals = signals\<rparr>)"

text \<open>
  \<open>detect_captcha\<close>: the page is \<open>None\<close> when \<open>page.evaluate\<close> raises; the
  exception is swallowed and the default is returned.
\<close>

definition detect_captcha :: "document option \<Rightarrow> detection" where
  "detect_captcha page =
     (case page of
        Some d \<Rightarrow> detect_js d
      | None \<Rightarrow> \<lparr>found = False, provider = ''unknown'', signals = []\<rparr>)"

section \<open>Capturing one URL\<close>

subsection \<open>Options, the outside world, and what a run does\<close>

datatype capture_mode = Screenshot | Print

text \<open>
  The options that decide what \<open>capture_one\<close> does. The others (device pixel ratio,
  delays, time-outs, user agent, injected CSS and JS) are only handed to the browser
  engine.
\<close>

record CaptureOptions =
  mode :: capture_mode
  exact_single_page :: bool
  viewport_width :: int
  filename_from_url :: bool
  output_dir :: string

text \<open>
  \<open>capture_one\<close> drives a browser engine, a human and the file system. What they
  answer is the \<open>world\<close>: one field for each place of the source where a call can
  raise or return something the control flow depends on (\<open>None\<close>: the call succeeds).
  The fields ending in \<open>_h\<close> belong to the print attempt on the headless page inside
  the handoff episode, \<open>_visible\<close> to the visible page, \<open>_headless\<close> to the headless
  path at the end of \<open>capture_one\<close>.
\<close>

datatype human = NoAnswer | Answer string | PromptRaises py_error

record world =
  now_stamp :: string
  goto1 :: "py_error option"
  page1 :: "document option"
  launch :: "py_error option"
  new_context :: "py_error option"
  new_page :: "py_error option"
  prompt :: human
  close_context :: "py_error option"
  goto2 :: "py_error option"
  page2 :: "document option"
  prepare_h :: "py_error option"
  emulate_media_h :: "py_error option"
  content_height_h :: "py_error + rat"
  pdf_h :: "py_error option"
  prepare_visible :: "py_error option"
  screenshot_visible :: "py_error + image"
  save_visible :: "py_error option"
  prepare_headless :: "py_error option"
  screenshot_headless :: "py_error + image"
  save_headless :: "py_error option"
  emulate_media_headless :: "py_error option"
  content_height_headless :: "py_error + rat"
  pdf_headless :: "py_error option"

text \<open>
  A run is the list of the calls it made on the outside, in order, and how it ended. An
  event is recorded when the call is made, \<open>Wrote\<close> when the file has been written.
\<close>

datatype session = Headless | Visible

datatype pdf_format = Sized rat rat | LetterFormat

datatype file_content = Printed pdf_format | Raster pdf

datatype event =
    Goto session
  | Detect
  | LaunchVisible
  | NewContext
  | ImportCookies
  | NewPage
  | PromptHuman
  | ExportState
  | CloseContext
  | CloseBrowser
  | PreparePage session
  | EmulateMedia
  | QueryHeight
  | CallPdf string pdf_format
  | TakeScreenshot session
  | Wrote string file_content

datatype 'a outcome = Returned 'a | Raised py_error | Hangs

type_synonym 'a run = "event list \<times> 'a outcome"

text \<open>Sequencing: the rest runs only after a call that returned.\<close>

definition then_do :: "'a run \<Rightarrow> ('a \<Rightarrow> 'b run) \<Rightarrow> 'b run" where
  "then_do m f =
     (case m of
        (ev, Returned x) \<Rightarrow> (case f x of (ev', r) \<Rightarrow> (ev @ ev', r))
      | (ev, Raised e) \<Rightarrow> (ev, Raised e)
      | (ev, Hangs) \<Rightarrow> (ev, Hangs))"

definition returns :: "'a \<Rightarrow> 'a run" where
  "returns x = ([], Returned x)"

text \<open>A call that may raise, and a call that returns a value or raises.\<close>

definition call :: "event \<Rightarrow> py_error option \<Rightarrow> unit run" where
  "call ev res = ([ev], case res of None \<Rightarrow> Returned () | Some e \<Rightarrow> Raised e)"

definition call_for :: "event \<Rightarrow> py_error + 'a \<Rightarrow> 'a run" where
  "call_for ev res = ([ev], case res of Inr x \<Rightarrow> Returned x | Inl e \<Rightarrow> Raised e)"

text \<open>A call inside \<open>try: ... except Exception: pass\<close>.\<close>

definition guarded :: "event \<Rightarrow> unit run" where
  "guarded ev = ([ev], Returned ())"

text \<open>\<open>try: m except Exception as e: handler\<close>.\<close>

definition try_except :: "'a run \<Rightarrow> (py_error \<Rightarrow> 'a run) \<Rightarrow> 'a run" where
  "try_except m handler =
     (case m of
        (ev, Raised e) \<Rightarrow> (case handler e of (ev', r) \<Rightarrow> (ev @ ev', r))
      | (ev, r) \<Rightarrow> (ev, r))"

subsection \<open>Output path\<close>

definition default_timestamped_name :: "string \<Rightarrow> string \<Rightarrow> string" where
  "default_timestamped_name ts url = sanitize_filename_component url @ ''_'' @ ts @ ''.pdf''"

definition out_path_of ::
  "(string \<Rightarrow> bool) \<Rightarrow> world \<Rightarrow> CaptureOptions \<Rightarrow> string \<Rightarrow> py_error + string" where
  "out_path_of valid w opts url =
     (case (if filename_from_url opts then url_to_filename valid url
            else Inr (default_timestamped_name (now_stamp w) url)) of
        Inl e \<Rightarrow> Inl e
      | Inr out_name \<Rightarrow> Inr (output_dir opts @ ''/'' @ out_name))"

subsection \<open>The two strategies\<close>

text \<open>
  The raster strategy: \<open>screenshot_to_singlepage_pdf\<close> or
  \<open>screenshot_to_paginated_letter_pdf\<close> on the screenshot, which also write the file
  (\<open>save\<close> is what creating the directory and writing answer).
\<close>

definition raster_to_file ::
  "(rat \<Rightarrow> rat) \<Rightarrow> CaptureOptions \<Rightarrow> image \<Rightarrow> py_error option \<Rightarrow> string \<Rightarrow> unit run" where
  "raster_to_file fl opts img save_res out_path =
     (if exact_single_page opts then
        (case save_res of
           Some e \<Rightarrow> ([], Raised e)
         | None \<Rightarrow> ([Wrote out_path (Raster (screenshot_to_singlepage_pdf fl img))], Returned ()))
      else
        (case screenshot_to_paginated_letter_pdf fl img (1 / 2) of
           None \<Rightarrow> ([], Hangs)
         | Some (Inl e) \<Rightarrow> ([], Raised e)
         | Some (Inr doc) \<Rightarrow>
             (case save_res of
                Some e \<Rightarrow> ([], Raised e)
              | None \<Rightarrow> ([Wrote out_path (Raster doc)], Returned ()))))"

text \<open>
  The print strategy up to the call of \<open>page.pdf\<close>: the media emulation and, for a
  single page, the height of the content, from which the page format follows (the
  199-inch limit).
\<close>

definition pdf_kwargs :: "(rat \<Rightarrow> rat) \<Rightarrow> CaptureOptions \<Rightarrow> rat \<Rightarrow> pdf_format" where
  "pdf_kwargs fl opts content_height_px =
     (let content_height_in = fl (content_height_px / CSS_PX_PER_INCH);
          content_width_in = fl (of_int (viewport_width opts) / CSS_PX_PER_INCH)
      in if content_height_in \<le> 199 then Sized content_width_in content_height_in
         else LetterFormat)"

definition print_setup ::
  "(rat \<Rightarrow> rat) \<Rightarrow> CaptureOptions \<Rightarrow> py_error option \<Rightarrow> py_error + rat \<Rightarrow> pdf_format run" where
  "print_setup fl opts emulate_res height_res =
     then_do (call EmulateMedia emulate_res) (\<lambda>_.
       if exact_single_page opts
       then then_do (call_for QueryHeight height_res) (\<lambda>h. returns (pdf_kwargs fl opts h))
       else returns LetterFormat)"

definition page_pdf :: "string \<Rightarrow> pdf_format \<Rightarrow> py_error option \<Rightarrow> unit run" where
  "page_pdf out_path fmt res =
     (case res of
        Some e \<Rightarrow> ([CallPdf out_path fmt], Raised e)
      | None \<Rightarrow> ([CallPdf out_path fmt, Wrote out_path (Printed fmt)], Returned ()))"

subsection \<open>The headless path\<close>

text \<open>
  The end of \<open>capture_one\<close>, from \<open>prepare_page_for_capture(page, ...)\<close> on. Only the
  call of \<open>page.pdf\<close> is inside the \<open>try\<close>.
\<close>

definition headless_capture ::
  "(rat \<Rightarrow> rat) \<Rightarrow> world \<Rightarrow> CaptureOptions \<Rightarrow> string \<Rightarrow> string run" where
  "headless_capture fl w opts out_path =
     then_do (call (PreparePage Headless) (prepare_headless w)) (\<lambda>_.
     then_do
       (if mode opts = Screenshot then
          then_do (call_for (TakeScreenshot Headless) (screenshot_headless w)) (\<lambda>png.
            raster_to_file fl opts png (save_headless w) out_path)
        else
          then_do (print_setup fl opts (emulate_media_headless w) (content_height_headless w))
            (\<lambda>fmt.
              try_except (page_pdf out_path fmt (pdf_headless w)) (\<lambda>e.
                then_do (call_for (TakeScreenshot Headless) (screenshot_headless w)) (\<lambda>png.
                  raster_to_file fl opts png (save_headless w) out_path))))
       (\<lambda>_. returns out_path))"

text \<open>
  The headless path with the line in front of it that parses the URL once more
  (\<open>h = (urlparse(url).netloc or "").lower()\<close>).
\<close>

definition normal_path ::
  "(rat \<Rightarrow> rat) \<Rightarrow> (string \<Rightarrow> bool) \<Rightarrow> world \<Rightarrow> CaptureOptions \<Rightarrow> string \<Rightarrow> string
     \<Rightarrow> string run" where
  "normal_path fl valid w opts url out_path =
     (case host_of valid url of
        Inl e \<Rightarrow> ([], Raised e)
      | Inr h \<Rightarrow> headless_capture fl w opts out_path)"

subsection \<open>The handoff episode\<close>

text \<open>
  \<open>try: await aux_ctx.close(); await aux_browser.close() except Exception: pass\<close>:
  the browser is closed unless closing the context raises.
\<close>

definition close_visible :: "world \<Rightarrow> unit run" where
  "close_visible w =
     (case close_context w of
        Some e \<Rightarrow> ([CloseContext], Returned ())
      | None \<Rightarrow> ([CloseContext, CloseBrowser], Returned ()))"

text \<open>Waiting for the human: \<open>decision["action"]\<close> once the event is set.\<close>

definition ask_human :: "world \<Rightarrow> string run" where
  "ask_human w =
     (case prompt w of
        NoAnswer \<Rightarrow> ([PromptHuman], Hangs)
      | PromptRaises e \<Rightarrow> ([PromptHuman], Raised e)
      | Answer a \<Rightarrow> ([PromptHuman], Returned a))"

text \<open>
  After "continue", in print mode: navigate the headless page again and detect again; any
  exception counts as a CAPTCHA that is still there.
\<close>

definition still_blocked :: "world \<Rightarrow> bool run" where
  "still_blocked w =
     (case goto2 w of
        Some e \<Rightarrow> ([Goto Headless], Returned True)
      | None \<Rightarrow> ([Goto Headless, Detect], Returned (found (detect_captcha (page2 w)))))"

text \<open>
  The print attempt of the episode; everything up to the \<open>return\<close> is inside one
  \<open>try\<close>. The result is the value returned, or \<open>None\<close> to go on with the screenshot
  of the visible page.
\<close>

definition print_after_solve ::
  "(rat \<Rightarrow> rat) \<Rightarrow> world \<Rightarrow> CaptureOptions \<Rightarrow> string \<Rightarrow> string option run" where
  "print_after_solve fl w opts out_path =
     then_do (still_blocked w) (\<lambda>blocked.
       if \<not> blocked then
         try_except
           (then_do (call (PreparePage Headless) (prepare_h w)) (\<lambda>_.
            then_do (print_setup fl opts (emulate_media_h w) (content_height_h w)) (\<lambda>fmt.
            then_do (page_pdf out_path fmt (pdf_h w)) (\<lambda>_.
            then_do (close_visible w) (\<lambda>_. returns (Some out_path))))))
           (\<lambda>e. returns None)
       else returns None)"

text \<open>
  The screenshot of the solved visible page; after an exception the visible session is
  closed and \<open>capture_one\<close> falls through to the headless path.
\<close>

definition screenshot_visible_page ::
  "(rat \<Rightarrow> rat) \<Rightarrow> world \<Rightarrow> CaptureOptions \<Rightarrow> string \<Rightarrow> string option run" where
  "screenshot_visible_page fl w opts out_path =
     try_except
       (then_do (call (PreparePage Visible) (prepare_visible w)) (\<lambda>_.
        then_do (call_for (TakeScreenshot Visible) (screenshot_visible w)) (\<lambda>png.
        then_do (raster_to_file fl opts png (save_visible w) out_path) (\<lambda>_.
        then_do (close_visible w) (\<lambda>_. returns (Some out_path))))))
       (\<lambda>e. then_do (close_visible w) (\<lambda>_. returns None))"

text \<open>
  The episode, from the launch of the visible browser on. The result is the value
  \<open>capture_one\<close> returns from inside the episode, or \<open>None\<close> when it goes on to the
  headless path.
\<close>

definition handoff ::
  "(rat \<Rightarrow> rat) \<Rightarrow> world \<Rightarrow> CaptureOptions \<Rightarrow> string \<Rightarrow> string option run" where
  "handoff fl w opts out_path =
     then_do (call LaunchVisible (launch w)) (\<lambda>_.
     then_do (call NewContext (new_context w)) (\<lambda>_.
     then_do (guarded ImportCookies) (\<lambda>_.
     then_do (call NewPage (new_page w)) (\<lambda>_.
     then_do (guarded (Goto Visible)) (\<lambda>_.
     then_do (ask_human w) (\<lambda>action.
       if action \<noteq> ''continue'' then
         then_do (close_visible w) (\<lambda>_. returns None)
       else
         then_do (guarded ExportState) (\<lambda>_.
         then_do (if mode opts = Print then print_after_solve fl w opts out_path else returns None)
           (\<lambda>r. case r of
                   Some p \<Rightarrow> returns (Some p)
                 | None \<Rightarrow> screenshot_visible_page fl w opts out_path))))))))"

subsection \<open>\<open>capture_one\<close>\<close>

text \<open>The first navigation: only a time-out is caught.\<close>

definition navigate :: "world \<Rightarrow> unit run" where
  "navigate w =
     (case goto1 w of
        None \<Rightarrow> ([Goto Headless], Returned ())
      | Some e \<Rightarrow>
          if e = PlaywrightTimeout then ([Goto Headless], Returned ())
          else ([Goto Headless], Raised e))"

definition capture_one ::
  "(rat \<Rightarrow> rat) \<Rightarrow> (string \<Rightarrow> bool) \<Rightarrow> world \<Rightarrow> CaptureOptions \<Rightarrow> string \<Rightarrow> string run" where
  "capture_one fl valid w opts url =
     (case out_path_of valid w opts url of
        Inl e \<Rightarrow> ([], Raised e)
      | Inr out_path \<Rightarrow>
          then_do (navigate w) (\<lambda>_.
          then_do (guarded Detect) (\<lambda>_.
          then_do (if found (detect_captcha (page1 w)) then handoff fl w opts out_path
                   else returns None)
            (\<lambda>r. case r of
                    Some p \<Rightarrow> returns p
                  | None \<Rightarrow> normal_path fl valid w opts url out_path))))"

text \<open>A world in which every call succeeds and the page shows no CAPTCHA, and a page
  with a Cloudflare challenge.\<close>

definition plain_image :: image where
  "plain_image = \<lparr>img_width = 3, img_rows = replicate 10 [0, 0, 0]\<rparr>"

definition calm_world :: world where
  "calm_world =
     \<lparr>now_stamp = ''20250101_120000'', goto1 = None,
      page1 = Some \<lparr>doc_title = ''Example'', doc_body = Some ''Hello'', doc_selectors = []\<rparr>,
      launch = None, new_context = None, new_page = None, prompt = Answer ''continue'',
      close_context = None, goto2 = None,
      page2 = Some \<lparr>doc_title = ''Example'', doc_body = Some ''Hello'', doc_selectors = []\<rparr>,
      prepare_h = None, emulate_media_h = None, content_height_h = Inr 2000, pdf_h = None,
      prepare_visible = None, screenshot_visible = Inr plain_image, save_visible = None,
      prepare_headless = None, screenshot_headless = Inr plain_image, save_headless = None,
      emulate_media_headless = None, content_height_headless = Inr 2000, pdf_headless = None\<rparr>"

definition gate_page :: document where
  "gate_page = \<lparr>doc_title = ''Just a moment...'', doc_body = Some ''Verify you are human'',
     doc_selectors = [''#challenge-form'']\<rparr>"

definition print_letter :: CaptureOptions where
  "print_letter = \<lparr>mode = Print, exact_single_page = False, viewport_width = 1366,
     filename_from_url = True, output_dir = ''out''\<rparr>"

text \<open>
  What the statements below ask of the rounding: a nonzero value does not round to zero
  (no underflow), and the integers up to the height of a Letter page are exact. Both hold
  of binary64 at the magnitudes of page geometry, and of exact arithmetic.
\<close>

definition rounding_ok :: "(rat \<Rightarrow> rat) \<Rightarrow> bool" where
  "rounding_ok fl \<longleftrightarrow> (\<forall>x. x \<noteq> 0 \<longrightarrow> fl x \<noteq> 0) \<and> (\<forall>n::nat. n \<le> 792 \<longrightarrow> fl (of_nat n) = of_nat n)"

section \<open>Properties of the band-slicing loop\<close>

lemma ceil_step:
  fixes n B :: int
  assumes "1 \<le> B" "B \<le> n"
  shows "\<lceil>(of_int n :: rat) / of_int B\<rceil> = 1 + \<lceil>(of_int (n - B) :: rat) / of_int B\<rceil>"
proof -
  have "(of_int (n - B) :: rat) / of_int B = of_int n / of_int B - 1"
    using assms by (simp add: diff_divide_distrib)
  then show ?thesis by simp
qed

lemma ceil_last:
  fixes n B :: int
  assumes "0 < n" "n \<le> B"
  shows "\<lceil>(of_int n :: rat) / of_int B\<rceil> = 1"
proof -
  have "0 < (of_int n :: rat) / of_int B" using assms by simp
  moreover have "(of_int n :: rat) / of_int B \<le> 1" using assms by simp
  ultimately show ?thesis by (simp add: ceiling_eq_iff)
qed

lemma slice_loop_inv:
  assumes B: "1 \<le> native_px_per_page g"
  shows "0 \<le> y \<Longrightarrow> y \<le> int (img_height img) \<Longrightarrow> page_ops c = [] \<Longrightarrow>
    \<exists>c' new. slice_loop fl img g y c = Some c' \<and> pagesize c' = pagesize c \<and> page_ops c' = []
      \<and> pages c' = pages c @ new
      \<and> int (length new) = \<lceil>(of_int (int (img_height img) - y) :: rat) / of_int (native_px_per_page g)\<rceil>
      \<and> (\<forall>p \<in> set new. length p = 1)
      \<and> concat (map (img_rows \<circ> drawn_image) (concat new)) = drop (nat y) (img_rows img)
      \<and> (\<forall>p \<in> set new. \<forall>d \<in> set p. img_width (drawn_image d) = img_width img
            \<and> 1 \<le> img_height (drawn_image d) \<and> int (img_height (drawn_image d)) \<le> native_px_per_page g)"
proof (induction "nat (int (img_height img) - y)" arbitrary: y c rule: less_induct)
  case less
  let ?H = "int (img_height img)"
  let ?B = "native_px_per_page g"
  show ?case
  proof (cases "y < ?H")
    case False
    with less.prems have "y = ?H" by simp
    then show ?thesis using less.prems
      by (subst slice_loop.simps) (simp add: img_height_def)
  next
    case True
    define y' where "y' = min ?H (y + ?B)"
    define tile where "tile = crop img y (int (img_width img)) y'"
    define th where "th = fl (csspx_to_pdfpt fl (of_nat (img_height tile)) * scale g)"
    define c1 where "c1 = showPage (drawImage tile (margin_pt g) (fl (fl (page_h_pt g - margin_pt g) - th)) (content_w_pt g) th c)"
    have y': "y < y'" "y' \<le> ?H" "0 \<le> y'" using True B less.prems by (auto simp: y'_def)
    have step: "slice_loop fl img g y c = slice_loop fl img g y' c1"
      using True by (subst slice_loop.simps) (simp add: Let_def y'_def tile_def th_def c1_def)
    have c1: "page_ops c1 = []" "pagesize c1 = pagesize c"
      "pages c1 = pages c @ [[DrawImage tile (margin_pt g) (fl (fl (page_h_pt g - margin_pt g) - th)) (content_w_pt g) th]]"
      using less.prems by (simp_all add: c1_def showPage_def drawImage_def)
    have "nat (?H - y') < nat (?H - y)" using y' by simp
    from less.hyps[OF this y'(3) y'(2) c1(1)]
    obtain c' new where IH: "slice_loop fl img g y' c1 = Some c'" "pagesize c' = pagesize c1" "page_ops c' = []"
      "pages c' = pages c1 @ new"
      "int (length new) = \<lceil>(of_int (?H - y') :: rat) / of_int ?B\<rceil>"
      "\<forall>p \<in> set new. length p = 1"
      "concat (map (img_rows \<circ> drawn_image) (concat new)) = drop (nat y') (img_rows img)"
      "\<forall>p \<in> set new. \<forall>d \<in> set p. img_width (drawn_image d) = img_width img
            \<and> 1 \<le> img_height (drawn_image d) \<and> int (img_height (drawn_image d)) \<le> ?B"
      by blast
    let ?d = "DrawImage tile (margin_pt g) (fl (fl (page_h_pt g - margin_pt g) - th)) (content_w_pt g) th"
    have cnt: "\<lceil>(of_int (?H - y) :: rat) / of_int ?B\<rceil> = 1 + \<lceil>(of_int (?H - y') :: rat) / of_int ?B\<rceil>"
    proof (cases "y + ?B \<le> ?H")
      case True
      then have "y' = y + ?B" by (simp add: y'_def)
      then show ?thesis using ceil_step[of ?B "?H - y"] B True by (simp add: algebra_simps)
    next
      case False
      then have "y' = ?H" by (simp add: y'_def)
      then show ?thesis using ceil_last[of "?H - y" ?B] False \<open>y < ?H\<close> by simp
    qed
    have rows_tile: "img_rows tile = take (nat (y' - y)) (drop (nat y) (img_rows img))"
      by (simp add: tile_def crop_def)
    have "drop (nat y) (img_rows img) = img_rows tile @ drop (nat y') (img_rows img)"
    proof -
      have eq: "nat y' = nat (y' - y) + nat y" using y' less.prems by simp
      have "drop (nat y) (img_rows img) =
          take (nat (y' - y)) (drop (nat y) (img_rows img)) @ drop (nat (y' - y)) (drop (nat y) (img_rows img))"
        by (simp only: append_take_drop_id)
      also have "drop (nat (y' - y)) (drop (nat y) (img_rows img)) = drop (nat y') (img_rows img)"
        by (simp add: eq)
      finally show ?thesis unfolding rows_tile .
    qed
    moreover have ht: "int (img_height tile) = y' - y"
      using y' less.prems by (simp add: img_height_def rows_tile)
    moreover have "img_width tile = img_width img" by (simp add: tile_def crop_def)
    moreover have "y' - y \<le> ?B" by (simp add: y'_def)
    ultimately show ?thesis
      using IH c1 cnt step y'
      by (intro exI[of _ c'] exI[of _ "[?d] # new"]) auto
  qed
qed

lemma slice_loop_some_imp:
  assumes "slice_loop fl img g y c = Some c'"
  shows "native_px_per_page g \<le> 0 \<longrightarrow> \<not> y < int (img_height img)"
proof (rule slice_loop.raw_induct
    [where P = "\<lambda>fl img (g::geometry) y c c'. native_px_per_page g \<le> 0 \<longrightarrow> \<not> y < int (img_height img)",
     OF _ assms])
  fix rec_call :: "(rat \<Rightarrow> rat) \<Rightarrow> image \<Rightarrow> geometry \<Rightarrow> int \<Rightarrow> canvas \<Rightarrow> canvas option"
  fix fl :: "rat \<Rightarrow> rat" and img :: image and g :: geometry and y :: int and c c' :: canvas
  let ?H = "int (img_height img)"
  let ?y' = "min ?H (y + native_px_per_page g)"
  assume IH: "\<And>fl img g y c c'. rec_call fl img g y c = Some c' \<Longrightarrow>
      native_px_per_page g \<le> 0 \<longrightarrow> \<not> y < int (img_height img)"
  assume body: "(if y < ?H then
        (let y_bottom_px = min ?H (y + native_px_per_page g);
             tile = crop img y (int (img_width img)) y_bottom_px;
             tile_h_pt = fl (csspx_to_pdfpt fl (of_nat (img_height tile)) * scale g);
             x_pt = margin_pt g;
             y_pt = fl (fl (page_h_pt g - margin_pt g) - tile_h_pt);
             c = drawImage tile x_pt y_pt (content_w_pt g) tile_h_pt c;
             c = showPage c
         in rec_call fl img g y_bottom_px c)
      else Some c) = Some c'"
  show "native_px_per_page g \<le> 0 \<longrightarrow> \<not> y < ?H"
  proof (intro impI notI)
    assume B: "native_px_per_page g \<le> 0" and y: "y < ?H"
    from body y obtain c1 where "rec_call fl img g ?y' c1 = Some c'"
      by (simp add: Let_def)
    from IH[OF this] B have "\<not> ?y' < ?H" by simp
    with B y show False by simp
  qed
qed

lemma slice_loop_diverges:
  "native_px_per_page g \<le> 0 \<Longrightarrow> y < int (img_height img) \<Longrightarrow> slice_loop fl img g y c = None"
  using slice_loop_some_imp[of fl img g y c] by (cases "slice_loop fl img g y c") auto

lemma letter_geometry_clamped:
  "letter_geometry fl w m = Inr g \<Longrightarrow> 1 \<le> native_px_per_page g"
  by (auto simp: letter_geometry_def Let_def letter_def split: if_splits)

lemma rounding_ok_nat: "rounding_ok fl \<Longrightarrow> n \<le> 792 \<Longrightarrow> fl (of_nat n) = of_nat n"
  by (simp add: rounding_ok_def)

lemma letter_geometry_default:
  assumes "1 \<le> w" "rounding_ok fl"
  shows "\<exists>g. letter_geometry fl w (1/2) = Inr g \<and> margin_pt g = 36 \<and> content_w_pt g = 540"
proof -
  have nz: "\<And>x. x \<noteq> 0 \<Longrightarrow> fl x \<noteq> 0" using assms(2) by (simp add: rounding_ok_def)
  have f36: "fl 36 = 36" using rounding_ok_nat[OF assms(2), of 36] by simp
  have f72: "fl 72 = 72" using rounding_ok_nat[OF assms(2), of 72] by simp
  have f540: "fl 540 = 540" using rounding_ok_nat[OF assms(2), of 540] by simp
  have f720: "fl 720 = 720" using rounding_ok_nat[OF assms(2), of 720] by simp
  have "fl (3 / 4) \<noteq> 0" by (rule nz) simp
  then have "of_nat w * fl (3 / 4) \<noteq> 0" using assms(1) by simp
  then have w: "csspx_to_pdfpt fl (of_nat w) \<noteq> 0"
    by (simp add: csspx_to_pdfpt_def CSS_PX_PER_INCH_def PDF_POINTS_PER_INCH_def nz)
  then have s: "fl (540 / csspx_to_pdfpt fl (of_nat w)) \<noteq> 0" by (auto intro!: nz)
  show ?thesis
    using w s by (simp add: letter_geometry_def Let_def letter_def inch_def f36 f72 f540 f720)
qed

lemma letter_geometry_exact:
  assumes "1 \<le> w"
  shows "\<exists>g. letter_geometry (\<lambda>x. x) w (1/2) = Inr g \<and> native_px_per_page g = \<lfloor>(4 * of_nat w :: rat) / 3\<rfloor>"
proof -
  have "1 \<le> \<lfloor>(4 * of_nat w :: rat) / 3\<rfloor>" using assms by (simp add: le_floor_iff)
  then show ?thesis using assms
    by (simp add: letter_geometry_def Let_def letter_def inch_def csspx_to_pdfpt_def
        CSS_PX_PER_INCH_def PDF_POINTS_PER_INCH_def py_int_def mult.commute)
qed

section \<open>The raster paginator\<close>

lemma paginated_result:
  assumes "letter_geometry fl (img_width img) m = Inr g"
  shows "\<exists>doc. screenshot_to_paginated_letter_pdf fl img m = Some (Inr doc)
      \<and> pdf_pagesize doc = letter
      \<and> int (length (pdf_pages doc)) =
          \<lceil>(of_nat (img_height img) :: rat) / of_int (native_px_per_page g)\<rceil>
      \<and> (\<forall>p \<in> set (pdf_pages doc). length p = 1)
      \<and> concat (map img_rows (pdf_bands doc)) = img_rows img
      \<and> sum_list (map img_height (pdf_bands doc)) = img_height img
      \<and> (\<forall>b \<in> set (pdf_bands doc). img_width b = img_width img \<and> 1 \<le> img_height b
            \<and> int (img_height b) \<le> native_px_per_page g)"
proof -
  have B: "1 \<le> native_px_per_page g" using assms by (rule letter_geometry_clamped)
  from slice_loop_inv[OF B, of 0 img "Canvas letter" fl]
  obtain c' new where r: "slice_loop fl img g 0 (Canvas letter) = Some c'"
    "pagesize c' = letter" "page_ops c' = []" "pages c' = new"
    "int (length new) = \<lceil>(of_nat (img_height img) :: rat) / of_int (native_px_per_page g)\<rceil>"
    "\<forall>p \<in> set new. length p = 1"
    "concat (map (img_rows \<circ> drawn_image) (concat new)) = img_rows img"
    "\<forall>p \<in> set new. \<forall>d \<in> set p. img_width (drawn_image d) = img_width img
        \<and> 1 \<le> img_height (drawn_image d) \<and> int (img_height (drawn_image d)) \<le> native_px_per_page g"
    by (auto simp: Canvas_def)
  have doc: "screenshot_to_paginated_letter_pdf fl img m = Some (Inr (save c'))"
    by (simp add: screenshot_to_paginated_letter_pdf_def assms r(1))
  have s: "pdf_pages (save c') = new" "pdf_pagesize (save c') = letter"
    by (simp_all add: save_def r)
  have rows: "concat (map img_rows (pdf_bands (save c'))) = img_rows img"
    using r(7) by (simp add: pdf_bands_def s)
  have "sum_list (map img_height (pdf_bands (save c'))) = length (concat (map img_rows (pdf_bands (save c'))))"
    by (simp add: length_concat img_height_def [abs_def] comp_def)
  then have sum: "sum_list (map img_height (pdf_bands (save c'))) = img_height img"
    by (simp add: rows img_height_def)
  have bands: "\<forall>b \<in> set (pdf_bands (save c')). img_width b = img_width img \<and> 1 \<le> img_height b
            \<and> int (img_height b) \<le> native_px_per_page g"
    using r(8) by (auto simp: pdf_bands_def s)
  show ?thesis
    using doc s r(5,6) rows sum bands by (intro exI[of _ "save c'"]) simp
qed

lemma singlepage_result:
  "pdf_pages (screenshot_to_singlepage_pdf fl img) =
     [[DrawImage img 0 0 (csspx_to_pdfpt fl (of_nat (img_width img)))
         (csspx_to_pdfpt fl (of_nat (img_height img)))]]"
  "pdf_pagesize (screenshot_to_singlepage_pdf fl img) =
     (csspx_to_pdfpt fl (of_nat (img_width img)), csspx_to_pdfpt fl (of_nat (img_height img)))"
  by (simp_all add: screenshot_to_singlepage_pdf_def Let_def Canvas_def drawImage_def
      showPage_def save_def)

lemma csspx_to_pdfpt_exact: "csspx_to_pdfpt (\<lambda>x. x) px = px * (3 / 4)"
  by (simp add: csspx_to_pdfpt_def CSS_PX_PER_INCH_def PDF_POINTS_PER_INCH_def)

text \<open>
  Claim C1. For a bitmap at least one pixel wide, \<open>screenshot_to_paginated_letter_pdf\<close>
  with the default margin returns a document; its bands, put one under the other, are the
  scanlines of the bitmap, so their heights sum to the height \<open>H\<close>, each page
  carries one band, and there are \<open>\<lceil>H / B\<rceil>\<close> pages, \<open>B\<close> the
  computed band height. \<open>screenshot_to_singlepage_pdf\<close> returns, for every bitmap,
  one page that shows the whole bitmap and has the size of the bitmap in points, which is
  0.75 points per pixel.
\<close>

theorem raster_paginator_bands_and_pages:
  "(1 \<le> img_width img \<and> rounding_ok fl \<longrightarrow>
      (\<exists>g doc. letter_geometry fl (img_width img) (1 / 2) = Inr g
         \<and> screenshot_to_paginated_letter_pdf fl img (1 / 2) = Some (Inr doc)
         \<and> concat (map img_rows (pdf_bands doc)) = img_rows img
         \<and> sum_list (map img_height (pdf_bands doc)) = img_height img
         \<and> int (length (pdf_pages doc)) =
             \<lceil>(of_nat (img_height img) :: rat) / of_int (native_px_per_page g)\<rceil>
         \<and> (\<forall>p \<in> set (pdf_pages doc). length p = 1)))
   \<and> pdf_pages (screenshot_to_singlepage_pdf fl img) =
        [[DrawImage img 0 0 (csspx_to_pdfpt fl (of_nat (img_width img)))
            (csspx_to_pdfpt fl (of_nat (img_height img)))]]
   \<and> length (pdf_pages (screenshot_to_singlepage_pdf fl img)) = 1
   \<and> pdf_pagesize (screenshot_to_singlepage_pdf fl img) =
        (csspx_to_pdfpt fl (of_nat (img_width img)), csspx_to_pdfpt fl (of_nat (img_height img)))
   \<and> csspx_to_pdfpt (\<lambda>x. x) px = px * (3 / 4)"
proof -
  have "\<exists>g doc. letter_geometry fl (img_width img) (1 / 2) = Inr g
         \<and> screenshot_to_paginated_letter_pdf fl img (1 / 2) = Some (Inr doc)
         \<and> concat (map img_rows (pdf_bands doc)) = img_rows img
         \<and> sum_list (map img_height (pdf_bands doc)) = img_height img
         \<and> int (length (pdf_pages doc)) =
             \<lceil>(of_nat (img_height img) :: rat) / of_int (native_px_per_page g)\<rceil>
         \<and> (\<forall>p \<in> set (pdf_pages doc). length p = 1)"
    if "1 \<le> img_width img" "rounding_ok fl"
  proof -
    from letter_geometry_default[OF that] obtain g
      where g: "letter_geometry fl (img_width img) (1 / 2) = Inr g" by blast
    from paginated_result[OF g] g show ?thesis by blast
  qed
  then show ?thesis
    by (simp add: singlepage_result csspx_to_pdfpt_exact)
qed

theorem raster_paginator_bands_and_pages_witness:
  "\<exists>doc. screenshot_to_paginated_letter_pdf (\<lambda>x. x)
       \<lparr>img_width = 3, img_rows = replicate 10 [0, 0, 0]\<rparr> (1 / 2) = Some (Inr doc)
     \<and> concat (map img_rows (pdf_bands doc)) = replicate 10 [0, 0, 0]
     \<and> sum_list (map img_height (pdf_bands doc)) = 10
     \<and> length (pdf_pages doc) = 3"
proof -
  have g: "letter_geometry (\<lambda>x. x) 3 (1 / 2) =
      Inr \<lparr>margin_pt = 36, page_h_pt = 792, content_w_pt = 540, scale = 240, native_px_per_page = 4\<rparr>"
    by (simp add: letter_geometry_def Let_def letter_def inch_def csspx_to_pdfpt_def
        CSS_PX_PER_INCH_def PDF_POINTS_PER_INCH_def py_int_def)
  have c: "\<lceil>(10 :: rat) / 4\<rceil> = 3" by (simp add: ceiling_eq_iff)
  have ok: "rounding_ok (\<lambda>x. x)" by (simp add: rounding_ok_def)
  show ?thesis
    using raster_paginator_bands_and_pages
      [of "\<lparr>img_width = 3, img_rows = replicate 10 [0, 0, 0]\<rparr>" "\<lambda>x. x"] ok g c
    by (auto simp: img_height_def)
qed

text \<open>
  Claim C10. The band height that \<open>letter_geometry\<close> computes is at least 1, so each
  iteration of the loop moves the slice start strictly forward and the loop ends:
  \<open>screenshot_to_paginated_letter_pdf\<close> always returns. For a bitmap at least one
  pixel wide the geometry is computed without error, so the loop is reached. A band height
  of 0 or less, which the clamp excludes, would keep the loop running for ever.
\<close>

theorem slice_loop_terminates:
  "(letter_geometry fl (img_width img) m = Inr g \<longrightarrow>
      1 \<le> native_px_per_page g
      \<and> (\<exists>c. slice_loop fl img g 0 (Canvas letter) = Some c)
      \<and> (\<forall>y. 0 \<le> y \<and> y < int (img_height img) \<longrightarrow>
            y < min (int (img_height img)) (y + native_px_per_page g)))
   \<and> screenshot_to_paginated_letter_pdf fl img m \<noteq> None
   \<and> (1 \<le> img_width img \<and> rounding_ok fl \<longrightarrow>
        (\<exists>g. letter_geometry fl (img_width img) (1 / 2) = Inr g))
   \<and> (native_px_per_page g' \<le> 0 \<and> 0 < img_height img \<longrightarrow> slice_loop fl img g' 0 c = None)"
proof -
  have a: "1 \<le> native_px_per_page g \<and> (\<exists>c. slice_loop fl img g 0 (Canvas letter) = Some c)
      \<and> (\<forall>y. 0 \<le> y \<and> y < int (img_height img) \<longrightarrow>
            y < min (int (img_height img)) (y + native_px_per_page g))"
    if g: "letter_geometry fl (img_width img) m = Inr g" for g
  proof -
    have B: "1 \<le> native_px_per_page g" using g by (rule letter_geometry_clamped)
    from slice_loop_inv[OF B, of 0 img "Canvas letter" fl]
    have "\<exists>c. slice_loop fl img g 0 (Canvas letter) = Some c" by (auto simp: Canvas_def)
    with B show ?thesis by auto
  qed
  have b: "screenshot_to_paginated_letter_pdf fl img m \<noteq> None"
  proof (cases "letter_geometry fl (img_width img) m")
    case (Inl e)
    then show ?thesis by (simp add: screenshot_to_paginated_letter_pdf_def)
  next
    case (Inr g0)
    from a[OF this] obtain c where "slice_loop fl img g0 0 (Canvas letter) = Some c" by blast
    with Inr show ?thesis by (simp add: screenshot_to_paginated_letter_pdf_def)
  qed
  have c: "\<exists>g. letter_geometry fl (img_width img) (1 / 2) = Inr g"
    if "1 \<le> img_width img" "rounding_ok fl"
    using letter_geometry_default[OF that] by blast
  have d: "slice_loop fl img g' 0 c = None" if "native_px_per_page g' \<le> 0" "0 < img_height img"
    using slice_loop_diverges[of g' 0 img fl c] that by simp
  from a b c d show ?thesis by blast
qed

theorem slice_loop_terminates_witness:
  "(\<exists>c. slice_loop (\<lambda>x. x) \<lparr>img_width = 3, img_rows = replicate 10 [0, 0, 0]\<rparr>
        \<lparr>margin_pt = 36, page_h_pt = 792, content_w_pt = 540, scale = 240, native_px_per_page = 4\<rparr>
        0 (Canvas letter) = Some c)
   \<and> slice_loop (\<lambda>x. x) \<lparr>img_width = 3, img_rows = replicate 10 [0, 0, 0]\<rparr>
        \<lparr>margin_pt = 36, page_h_pt = 792, content_w_pt = 540, scale = 240, native_px_per_page = 0\<rparr>
        0 (Canvas letter) = None"
proof -
  have g: "letter_geometry (\<lambda>x. x) 3 (1 / 2) =
      Inr \<lparr>margin_pt = 36, page_h_pt = 792, content_w_pt = 540, scale = 240, native_px_per_page = 4\<rparr>"
    by (simp add: letter_geometry_def Let_def letter_def inch_def csspx_to_pdfpt_def
        CSS_PX_PER_INCH_def PDF_POINTS_PER_INCH_def py_int_def)
  show ?thesis
    using slice_loop_terminates
      [of "\<lambda>x. x" "\<lparr>img_width = 3, img_rows = replicate 10 [0, 0, 0]\<rparr>" "1 / 2"
          "\<lparr>margin_pt = 36, page_h_pt = 792, content_w_pt = 540, scale = 240, native_px_per_page = 4\<rparr>"
          "\<lparr>margin_pt = 36, page_h_pt = 792, content_w_pt = 540, scale = 240, native_px_per_page = 0\<rparr>"
          "Canvas letter"] g
    by (simp add: img_height_def)
qed

section \<open>Matching rules to hosts\<close>

lemma match_loop_filter:
  "match_loop h rules out =
     out @ filter (\<lambda>r. h = lstrip_chars ''.'' (domain r)
                     \<or> endswith h (''.'' @ lstrip_chars ''.'' (domain r))) rules"
  by (induction rules arbitrary: out) (simp_all add: Let_def)

lemma of_char_lt_256: "(of_char c :: nat) < 256"
  by (cases c) (simp add: of_char_def)

lemma lower_char_not_upper: "\<not> is_upper (lower_char c)"
proof (cases "is_upper c")
  case False
  then show ?thesis by (simp add: lower_char_def)
next
  case True
  have "(of_char c :: nat) + 32 < 256" using True by (auto simp: is_upper_def Let_def)
  then have "(of_char (char_of (of_char c + (32::nat))) :: nat) = of_char c + 32"
    by simp
  then show ?thesis using True by (auto simp: lower_char_def is_upper_def Let_def)
qed

lemma lower_idem: "lower (lower s) = lower s"
proof -
  have "lower_char (lower_char c) = lower_char c" for c
    using lower_char_not_upper[of c] by (simp add: lower_char_def[of "lower_char c"])
  then show ?thesis by (simp add: lower_def)
qed

lemma lstrip_chars_id: "\<not> startswith s ''.'' \<Longrightarrow> lstrip_chars ''.'' s = s"
  by (cases s) (auto simp: startswith_def lstrip_chars_def)

lemma parse_site_rules_domain_lower:
  "r \<in> set (parse_site_rules text) \<Longrightarrow> lower (domain r) = domain r"
  by (auto simp: parse_site_rules_def rule_of_match_def Let_def lower_idem split: if_splits)

text \<open>
  Claim C4, amended. \<open>match_rules_for_host\<close> returns, in their original order,
  exactly the rules for which the lower-cased host equals the rule's domain with its
  leading dots stripped, or ends with a dot followed by that stripped domain. For rules
  whose domains have no leading dot this is the test of the claim on the lower-cased
  host. The host is compared without regard to case; the domain of a rule is compared as
  it is stored, and \<open>parse_site_rules\<close> stores it lower-cased. A rule for
  \<open>example.com\<close> matches \<open>www.example.com\<close> and \<open>example.com\<close> and
  does not match \<open>notexample.com\<close>.
\<close>

theorem match_rules_for_host_suffix:
  "match_rules_for_host rules host =
     filter (\<lambda>r. lower host = lstrip_chars ''.'' (domain r)
                 \<or> endswith (lower host) (''.'' @ lstrip_chars ''.'' (domain r))) rules
   \<and> ((\<forall>r \<in> set rules. \<not> startswith (domain r) ''.'') \<longrightarrow>
        match_rules_for_host rules host =
          filter (\<lambda>r. lower host = domain r \<or> endswith (lower host) (''.'' @ domain r)) rules)
   \<and> match_rules_for_host rules (lower host) = match_rules_for_host rules host
   \<and> (\<forall>r \<in> set (parse_site_rules text). lower (domain r) = domain r)
   \<and> match_rules_for_host [\<lparr>domain = ''example.com'', css = c, js = j\<rparr>] ''www.example.com''
        = [\<lparr>domain = ''example.com'', css = c, js = j\<rparr>]
   \<and> match_rules_for_host [\<lparr>domain = ''example.com'', css = c, js = j\<rparr>] ''notexample.com'' = []
   \<and> match_rules_for_host [\<lparr>domain = ''example.com'', css = c, js = j\<rparr>] ''example.com''
        = [\<lparr>domain = ''example.com'', css = c, js = j\<rparr>]"
proof -
  have a: "match_rules_for_host rules host =
     filter (\<lambda>r. lower host = lstrip_chars ''.'' (domain r)
                 \<or> endswith (lower host) (''.'' @ lstrip_chars ''.'' (domain r))) rules"
    for rules host
    by (simp add: match_rules_for_host_def match_loop_filter Let_def)
  have b: "match_rules_for_host rules host =
          filter (\<lambda>r. lower host = domain r \<or> endswith (lower host) (''.'' @ domain r)) rules"
    if "\<forall>r \<in> set rules. \<not> startswith (domain r) ''.''"
    unfolding a by (rule filter_cong) (use that in \<open>simp_all add: lstrip_chars_id\<close>)
  have c: "match_rules_for_host rules (lower host) = match_rules_for_host rules host"
    by (simp add: a lower_idem)
  have d: "\<forall>r \<in> set (parse_site_rules text). lower (domain r) = domain r"
    by (simp add: parse_site_rules_domain_lower)
  have e1: "match_rules_for_host [\<lparr>domain = ''example.com'', css = c, js = j\<rparr>] ''www.example.com''
        = [\<lparr>domain = ''example.com'', css = c, js = j\<rparr>]"
    by code_simp
  have e2: "match_rules_for_host [\<lparr>domain = ''example.com'', css = c, js = j\<rparr>] ''notexample.com'' = []"
    by code_simp
  have e3: "match_rules_for_host [\<lparr>domain = ''example.com'', css = c, js = j\<rparr>] ''example.com''
        = [\<lparr>domain = ''example.com'', css = c, js = j\<rparr>]"
    by code_simp
  from a b c d e1 e2 e3 show ?thesis by blast
qed

theorem match_rules_for_host_suffix_witness:
  "match_rules_for_host
     [\<lparr>domain = ''example.com'', css = ''a{}'', js = []\<rparr>, \<lparr>domain = ''other.org'', css = [], js = []\<rparr>,
      \<lparr>domain = ''com'', css = [], js = ''f()''\<rparr>] ''WWW.Example.COM'' =
     [\<lparr>domain = ''example.com'', css = ''a{}'', js = []\<rparr>, \<lparr>domain = ''com'', css = [], js = ''f()''\<rparr>]"
proof -
  let ?rules = "[\<lparr>domain = ''example.com'', css = ''a{}'', js = []\<rparr>,
      \<lparr>domain = ''other.org'', css = [], js = []\<rparr>, \<lparr>domain = ''com'', css = [], js = ''f()''\<rparr>]"
  have nodot: "\<forall>r \<in> set ?rules. \<not> startswith (domain r) ''.''"
    by (simp add: startswith_def)
  have f: "filter (\<lambda>r. lower ''WWW.Example.COM'' = domain r
                 \<or> endswith (lower ''WWW.Example.COM'') (''.'' @ domain r)) ?rules =
     [\<lparr>domain = ''example.com'', css = ''a{}'', js = []\<rparr>, \<lparr>domain = ''com'', css = [], js = ''f()''\<rparr>]"
    by code_simp
  note T = match_rules_for_host_suffix
      [of ?rules "''WWW.Example.COM''" "''@domain Example.COM CSS: a{} @end''"]
  show ?thesis
    using mp[OF T[THEN conjunct2, THEN conjunct1] nodot] f by (rule trans)
qed

text \<open>
  The claim as it was stated fails: a rule for \<open>.example.com\<close> is returned for
  the host \<open>example.com\<close>, which neither equals that domain nor ends with a dot
  followed by it; and a rule whose stored domain is \<open>Example.com\<close> is not
  returned for the host \<open>example.com\<close>.
\<close>

theorem match_rules_for_host_counterexample:
  "match_rules_for_host [\<lparr>domain = ''.example.com'', css = [], js = []\<rparr>] ''example.com''
     = [\<lparr>domain = ''.example.com'', css = [], js = []\<rparr>]
   \<and> ''example.com'' \<noteq> ''.example.com''
   \<and> \<not> endswith ''example.com'' (''.'' @ ''.example.com'')
   \<and> match_rules_for_host [\<lparr>domain = ''Example.com'', css = [], js = []\<rparr>] ''example.com'' = []
   \<and> lower ''Example.com'' = lower ''example.com''"
  by code_simp

section \<open>File names are safe\<close>

lemma set_sub_runs: "set (sub_runs cls repl s) \<subseteq> set repl \<union> {c \<in> set s. \<not> cls c}"
proof (induction cls repl s rule: sub_runs.induct)
  case (1 cls repl)
  then show ?case by simp
next
  case (2 cls repl c cs)
  have "set (dropWhile cls cs) \<subseteq> set cs" by (auto dest: set_dropWhileD)
  with 2 show ?case by (auto split: if_splits)
qed

lemma set_strip: "set (strip s) \<subseteq> set s"
  by (auto simp: strip_def dest!: set_dropWhileD)

lemma set_strip_chars: "set (strip_chars cs s) \<subseteq> set s"
  by (auto simp: strip_chars_def rstrip_chars_def lstrip_chars_def dest!: set_dropWhileD)

lemma set_replace: "set (replace old new s) \<subseteq> set new \<union> (set s - {old})"
  by (auto simp: replace_def split: if_splits)

lemma sanitize_chars:
  assumes "c \<in> set (sanitize_filename_component s)"
  shows "\<not> illegal_char c \<and> (c \<in> set s \<or> c \<in> set ''_file'')"
proof -
  let ?s1 = "strip s"
  let ?s2 = "sub_runs illegal_char ''_'' ?s1"
  let ?s3 = "sub_runs (\<lambda>c. c = CHR ''_'') ''_'' ?s2"
  let ?s4 = "strip_chars ''_'' ?s3"
  have u: "\<not> illegal_char CHR ''_''" by (simp add: illegal_char_def)
  have 2: "set ?s2 \<subseteq> {CHR ''_''} \<union> {c \<in> set s. \<not> illegal_char c}"
    using set_sub_runs[of illegal_char "''_''" ?s1] set_strip[of s] by auto
  have 3: "set ?s3 \<subseteq> {CHR ''_''} \<union> set ?s2"
    using set_sub_runs[of "\<lambda>c. c = CHR ''_''" "''_''" ?s2] by auto
  have 4: "set ?s4 \<subseteq> set ?s3" by (rule set_strip_chars)
  have f: "\<forall>c \<in> set ''file''. \<not> illegal_char c" by (simp add: illegal_char_def)
  show ?thesis
  proof (cases "?s4 = []")
    case True
    then have "sanitize_filename_component s = ''file''"
      by (simp add: sanitize_filename_component_def Let_def)
    with assms f show ?thesis by auto
  next
    case False
    then have "sanitize_filename_component s = ?s4"
      by (simp add: sanitize_filename_component_def Let_def)
    with assms 2 3 4 u show ?thesis by auto
  qed
qed

lemma lower_char_dot: "lower_char c = CHR ''.'' \<Longrightarrow> c = CHR ''.''"
proof (cases "is_upper c")
  case False
  assume "lower_char c = CHR ''.''"
  with False show ?thesis by (simp add: lower_char_def)
next
  case True
  assume a: "lower_char c = CHR ''.''"
  have "(of_char c :: nat) + 32 < 256" using True by (auto simp: is_upper_def Let_def)
  then have "(of_char (char_of (of_char c + (32::nat))) :: nat) = of_char c + 32" by simp
  moreover have "(of_char (lower_char c) :: nat) = 46" using a by simp
  ultimately have "(of_char c :: nat) + 32 = 46" using True by (simp add: lower_char_def)
  with True show ?thesis by (auto simp: is_upper_def Let_def)
qed

lemma endswith_pdf_dot: "endswith s ''.pdf'' \<Longrightarrow> CHR ''.'' \<in> set s"
proof -
  assume "endswith s ''.pdf''"
  then have "drop (length s - length ''.pdf'') s = ''.pdf''" unfolding endswith_def by blast
  then have "CHR ''.'' \<in> set (drop (length s - length ''.pdf'') s)" by simp
  then show ?thesis by (rule in_set_dropD)
qed

lemma filename_base_no_dot:
  assumes "CHR ''.'' \<notin> set host"
  shows "CHR ''.'' \<notin> set (sanitize_filename_component (host @ ''_'' @ replace (CHR ''.'') ''_'' p))"
    and "CHR ''.'' \<notin> set (sanitize_filename_component host)"
proof -
  have p: "CHR ''.'' \<notin> set (replace (CHR ''.'') ''_'' p)"
    using set_replace[of "CHR ''.''" "''_''" p] by fastforce
  show "CHR ''.'' \<notin> set (sanitize_filename_component (host @ ''_'' @ replace (CHR ''.'') ''_'' p))"
    using sanitize_chars[of "CHR ''.''" "host @ ''_'' @ replace (CHR ''.'') ''_'' p"] assms p by auto
  show "CHR ''.'' \<notin> set (sanitize_filename_component host)"
    using sanitize_chars[of "CHR ''.''" host] assms by auto
qed

lemma endswith_append_self: "endswith (s @ p) p"
  by (simp add: endswith_def)

lemma filename_of_parsed_shape:
  "\<exists>base. filename_of_parsed parsed = base @ ''.pdf'' \<and> (\<forall>c \<in> set base. \<not> illegal_char c)
      \<and> CHR ''.'' \<notin> set base"
proof -
  define host where "host = replace (CHR ''.'') ''_'' (if netloc parsed = [] then ''site'' else netloc parsed)"
  define p0 where "p0 = (if path parsed = [] then ''/'' else path parsed)"
  define p1 where "p1 = (if endswith p0 ''/'' then butlast p0 else p0)"
  define p2 where "p2 = (if p1 = [] then ''/index.html'' else p1)"
  define p3 where "p3 = lstrip_chars ''/'' p2"
  define pp where "pp = replace (CHR ''.'') ''_'' (replace (CHR ''/'') ''_'' p3)"
  define b0 where "b0 = (if pp \<noteq> [] then host @ ''_'' @ pp else host)"
  define base where "base = sanitize_filename_component b0"
  have h: "CHR ''.'' \<notin> set host"
    using set_replace[of "CHR ''.''" "''_''"] unfolding host_def by fastforce
  have nodot: "CHR ''.'' \<notin> set base"
    using filename_base_no_dot(1)[OF h, of "replace (CHR ''/'') ''_'' p3"]
      filename_base_no_dot(2)[OF h]
    by (simp add: base_def b0_def pp_def)
  have "CHR ''.'' \<notin> set (lower base)"
  proof
    assume "CHR ''.'' \<in> set (lower base)"
    then obtain x where "x \<in> set base" "lower_char x = CHR ''.''" by (auto simp: lower_def)
    with lower_char_dot[of x] nodot show False by simp
  qed
  then have ne: "\<not> endswith (lower base) ''.pdf''" using endswith_pdf_dot by blast
  have "filename_of_parsed parsed = (if \<not> endswith (lower base) ''.pdf'' then base @ ''.pdf'' else base)"
    unfolding filename_of_parsed_def Let_def base_def b0_def pp_def p3_def p2_def p1_def p0_def host_def ..
  then have "filename_of_parsed parsed = base @ ''.pdf''" using ne by simp
  moreover have "\<forall>c \<in> set base. \<not> illegal_char c" using sanitize_chars[of _ b0] by (simp add: base_def)
  ultimately show ?thesis using nodot by blast
qed

lemma filename_of_parsed_ok:
  "endswith (filename_of_parsed parsed) ''.pdf''"
  "c \<in> set (filename_of_parsed parsed) \<Longrightarrow> \<not> illegal_char c"
proof -
  from filename_of_parsed_shape[of parsed] obtain base where
    b: "filename_of_parsed parsed = base @ ''.pdf''" "\<forall>c \<in> set base. \<not> illegal_char c" by blast
  show "endswith (filename_of_parsed parsed) ''.pdf''" unfolding b(1) by (rule endswith_append_self)
  have "\<forall>c \<in> set ''.pdf''. \<not> illegal_char c" by (simp add: illegal_char_def)
  with b show "c \<in> set (filename_of_parsed parsed) \<Longrightarrow> \<not> illegal_char c" by auto
qed

lemma set_split_scheme: "set (snd (split_scheme u)) \<subseteq> set u"
  by (auto simp: split_scheme_def Let_def dest: in_set_dropD)

lemma set_split_netloc: "set (fst (split_netloc u)) \<subseteq> set u"
  by (auto simp: split_netloc_def dest: set_takeWhileD in_set_dropD)

lemma set_url_clean: "set (url_clean u) \<subseteq> set u"
  by (auto simp: url_clean_def dest: set_dropWhileD)

lemma urlparse_error: "urlparse valid url = Inl e \<Longrightarrow> e = ValueError"
  by (auto simp: urlparse_def Let_def split_beta split: if_splits)

lemma urlparse_plain:
  assumes "\<forall>c \<in> set url. c \<noteq> CHR ''['' \<and> c \<noteq> CHR '']'' \<and> (of_char c :: nat) \<le> 127"
  shows "\<exists>p. urlparse valid url = Inr p"
proof -
  let ?nl = "fst (split_netloc (snd (split_scheme (url_clean url))))"
  have "set ?nl \<subseteq> set url"
    using set_split_netloc set_split_scheme set_url_clean by (meson subset_trans)
  with assms have "CHR ''['' \<notin> set ?nl" "CHR '']'' \<notin> set ?nl"
    "\<not> (\<exists>c \<in> set ?nl. (of_char c :: nat) > 127)"
    by (blast, blast, fastforce)
  then have "netloc_ok valid ?nl" unfolding netloc_ok_def by simp
  then show ?thesis by (simp add: urlparse_def Let_def split_beta)
qed

text \<open>
  Claim C5. For every URL string, \<open>url_to_filename\<close> is a function of the URL; the name
  it returns ends with \<open>.pdf\<close> and has none of the characters
  \<open>< > : " / \ | ? *\<close> and no control character U+0000 to U+001F. It returns a name
  unless the URL parser of the library rejects the URL with \<open>ValueError\<close>, which it
  does not for a URL of ASCII characters without square brackets. The URL
  \<open>https://example.com/a/b.html?x=1\<close> yields \<open>example_com_a_b_html.pdf\<close>.
\<close>

theorem url_to_filename_safe:
  "(case url_to_filename valid url of
      Inl e \<Rightarrow> e = ValueError \<and> urlparse valid url = Inl ValueError
    | Inr name \<Rightarrow> endswith name ''.pdf'' \<and> (\<forall>c \<in> set name. \<not> illegal_char c))
   \<and> ((\<forall>c \<in> set url. c \<noteq> CHR ''['' \<and> c \<noteq> CHR '']'' \<and> (of_char c :: nat) \<le> 127) \<longrightarrow>
        (\<exists>name. url_to_filename valid url = Inr name))
   \<and> (url' = url \<longrightarrow> url_to_filename valid url' = url_to_filename valid url)
   \<and> url_to_filename valid ''https://example.com/a/b.html?x=1'' = Inr ''example_com_a_b_html.pdf''"
proof -
  have a: "case url_to_filename valid url of
      Inl e \<Rightarrow> e = ValueError \<and> urlparse valid url = Inl ValueError
    | Inr name \<Rightarrow> endswith name ''.pdf'' \<and> (\<forall>c \<in> set name. \<not> illegal_char c)"
  proof (cases "urlparse valid url")
    case (Inl e)
    with urlparse_error[OF Inl] show ?thesis by (simp add: url_to_filename_def)
  next
    case (Inr p)
    then show ?thesis using filename_of_parsed_ok[where parsed = p] by (simp add: url_to_filename_def)
  qed
  have b: "\<exists>name. url_to_filename valid url = Inr name"
    if "\<forall>c \<in> set url. c \<noteq> CHR ''['' \<and> c \<noteq> CHR '']'' \<and> (of_char c :: nat) \<le> 127"
    using urlparse_plain[OF that, of valid] by (auto simp: url_to_filename_def)
  have c: "url_to_filename valid ''https://example.com/a/b.html?x=1'' = Inr ''example_com_a_b_html.pdf''"
    by code_simp
  from a b c show ?thesis by blast
qed

theorem url_to_filename_safe_witness:
  "url_to_filename (\<lambda>_. True) ''http://host.example/Docs/My File.PDF'' = Inr ''host_example_Docs_My File_PDF.pdf''
   \<and> endswith ''host_example_Docs_My File_PDF.pdf'' ''.pdf''
   \<and> list_all (\<lambda>c. \<not> illegal_char c) ''host_example_Docs_My File_PDF.pdf''"
proof -
  have v: "url_to_filename (\<lambda>_. True) ''http://host.example/Docs/My File.PDF'' = Inr ''host_example_Docs_My File_PDF.pdf''"
    by code_simp
  note T = url_to_filename_safe[of "\<lambda>_. True" "''http://host.example/Docs/My File.PDF''"
      "''http://host.example/Docs/My File.PDF''"]
  have "endswith ''host_example_Docs_My File_PDF.pdf'' ''.pdf''
   \<and> (\<forall>c \<in> set ''host_example_Docs_My File_PDF.pdf''. \<not> illegal_char c)"
    using T[THEN conjunct1] unfolding v sum.case .
  with v show ?thesis unfolding list_all_iff by (rule conjI)
qed

section \<open>Query and fragment do not reach the file name\<close>

lemma takeWhile_stop: "\<not> P c \<Longrightarrow> takeWhile P (y @ c # r) = takeWhile P y"
  by (induction y) auto

lemma dropWhile_stop: "\<not> P c \<Longrightarrow> dropWhile P (y @ c # r) = dropWhile P y @ c # r"
  by (induction y) auto

lemma length_takeWhile_less: "\<exists>x \<in> set y. \<not> P x \<Longrightarrow> length (takeWhile P y) < length y"
  by (induction y) auto

lemma takeWhile_all: "\<forall>x \<in> set y. P x \<Longrightarrow> takeWhile P y = y"
  by (induction y) auto

lemma takeWhile_through: "\<forall>x \<in> set y. P x \<Longrightarrow> \<not> P c \<Longrightarrow> takeWhile P (y @ c # r) = y"
  by (induction y) auto

lemma url_clean_suffix:
  assumes "qf_char c"
  shows "\<exists>r'. url_clean (b @ c # r) = url_clean b @ c # r'"
proof -
  let ?P = "\<lambda>c. (of_char c :: nat) \<le> 32"
  have c: "\<not> ?P c" "c \<notin> {CHR 0x09, CHR 0x0D, CHR 0x0A}"
    using assms by (auto simp: qf_char_def)
  have "dropWhile ?P (b @ c # r) = dropWhile ?P b @ c # r"
    using c(1) by (rule dropWhile_stop)
  then show ?thesis using c(2) by (simp add: url_clean_def)
qed

lemma split_scheme_suffix:
  assumes "qf_char c"
  shows "split_scheme (b @ c # r) = (fst (split_scheme b), snd (split_scheme b) @ c # r)"
proof (cases "CHR '':'' \<in> set b")
  case True
  then have pre: "takeWhile (\<lambda>c. c \<noteq> CHR '':'') (b @ c # r) = takeWhile (\<lambda>c. c \<noteq> CHR '':'') b"
    by (simp add: takeWhile_append1)
  have lt: "length (takeWhile (\<lambda>c. c \<noteq> CHR '':'') b) < length b"
    using True by (intro length_takeWhile_less) auto
  show ?thesis using lt by (simp add: split_scheme_def pre Let_def)
next
  case False
  then have all: "\<forall>x \<in> set b. x \<noteq> CHR '':''" by auto
  have b: "takeWhile (\<lambda>c. c \<noteq> CHR '':'') b = b" using all by (rule takeWhile_all)
  have nc: "c \<noteq> CHR '':''" using assms by (auto simp: qf_char_def)
  have "takeWhile (\<lambda>c. c \<noteq> CHR '':'') (b @ c # r) = b @ c # takeWhile (\<lambda>c. c \<noteq> CHR '':'') r"
    using all nc by (simp add: takeWhile_append2)
  moreover have "\<not> is_scheme_char c"
    using assms by (auto simp: qf_char_def is_scheme_char_def is_ascii_alpha_def)
  ultimately show ?thesis by (simp add: split_scheme_def b Let_def)
qed

lemma take2_suffix:
  assumes "c \<noteq> CHR ''/''"
  shows "take 2 (x @ c # r) = ''//'' \<longleftrightarrow> take 2 x = ''//''"
proof (cases x)
  case Nil
  then show ?thesis using assms by (simp add: numeral_2_eq_2)
next
  case (Cons a y)
  then show ?thesis using assms by (cases y) (auto simp: numeral_2_eq_2)
qed

lemma split_netloc_suffix:
  assumes "qf_char c"
  shows "split_netloc (x @ c # r) = (fst (split_netloc x), snd (split_netloc x) @ c # r)"
proof -
  let ?Q = "\<lambda>c. c \<notin> {CHR ''/'', CHR ''?'', CHR ''#''}"
  have nq: "\<not> ?Q c" and ns: "c \<noteq> CHR ''/''" using assms by (auto simp: qf_char_def)
  show ?thesis
  proof (cases "take 2 x = ''//''")
    case True
    then have len: "2 \<le> length x" by (cases x; cases "tl x") auto
    then have d: "drop 2 (x @ c # r) = drop 2 x @ c # r" by simp
    have t: "take 2 (x @ c # r) = ''//''" using True take2_suffix[OF ns] by blast
    show ?thesis
      unfolding split_netloc_def using True t
      by (simp only: d simp_thms if_True takeWhile_stop[where P = ?Q, OF nq]
          dropWhile_stop[where P = ?Q, OF nq] fst_conv snd_conv)
  next
    case False
    then have "take 2 (x @ c # r) \<noteq> ''//''" using take2_suffix[OF ns] by blast
    with False show ?thesis by (simp add: split_netloc_def)
  qed
qed

lemma set_snd_split_netloc: "set (snd (split_netloc u)) \<subseteq> set u"
  by (auto simp: split_netloc_def dest: set_dropWhileD in_set_dropD)

lemma urlparse_suffix:
  assumes c: "qf_char c" and b: "CHR ''?'' \<notin> set b" "CHR ''#'' \<notin> set b"
  shows "\<exists>q f. urlparse valid (b @ c # r) =
     (case urlparse valid b of Inl e \<Rightarrow> Inl e | Inr p \<Rightarrow> Inr (p\<lparr>query := q, fragment := f\<rparr>))"
proof -
  from url_clean_suffix[OF c] obtain r' where
    cl: "url_clean (b @ c # r) = url_clean b @ c # r'" by blast
  define u1 where "u1 = snd (split_scheme (url_clean b))"
  define sch where "sch = fst (split_scheme (url_clean b))"
  define nl where "nl = fst (split_netloc u1)"
  define z where "z = snd (split_netloc u1)"
  have s1: "split_scheme (url_clean (b @ c # r)) = (sch, u1 @ c # r')"
    unfolding cl sch_def u1_def by (rule split_scheme_suffix[OF c])
  have s2: "split_netloc (u1 @ c # r') = (nl, z @ c # r')"
    unfolding nl_def z_def by (rule split_netloc_suffix[OF c])
  have s1b: "split_scheme (url_clean b) = (sch, u1)" by (simp add: sch_def u1_def)
  have s2b: "split_netloc u1 = (nl, z)" by (simp add: nl_def z_def)
  have "set z \<subseteq> set b"
    using set_snd_split_netloc[of u1] set_split_scheme[of "url_clean b"] set_url_clean[of b]
    unfolding z_def u1_def by blast
  then have zq: "\<forall>x \<in> set z. x \<noteq> CHR ''?''" and zf: "\<forall>x \<in> set z. x \<noteq> CHR ''#''"
    using b by auto
  have pb: "takeWhile (\<lambda>c. c \<noteq> CHR ''?'') (takeWhile (\<lambda>c. c \<noteq> CHR ''#'') z) = z"
    by (simp add: takeWhile_all[OF zf] takeWhile_all[OF zq])
  have pw: "takeWhile (\<lambda>c. c \<noteq> CHR ''?'') (takeWhile (\<lambda>c. c \<noteq> CHR ''#'') (z @ c # r')) = z"
  proof (cases "c = CHR ''#''")
    case True
    then have "takeWhile (\<lambda>c. c \<noteq> CHR ''#'') (z @ c # r') = z"
      using takeWhile_through[OF zf, of c r'] by simp
    then show ?thesis by (simp add: takeWhile_all[OF zq])
  next
    case False
    then have cq: "c = CHR ''?''" using c by (simp add: qf_char_def)
    have "takeWhile (\<lambda>c. c \<noteq> CHR ''#'') (z @ c # r') = z @ c # takeWhile (\<lambda>c. c \<noteq> CHR ''#'') r'"
      using zf False by (simp add: takeWhile_append2)
    then show ?thesis using takeWhile_through[OF zq, of c] cq by simp
  qed
  show ?thesis
    by (simp add: urlparse_def s1 s2 s1b s2b Let_def pb pw split_beta)
qed

lemma filename_of_parsed_fields:
  "netloc p = netloc p' \<Longrightarrow> path p = path p' \<Longrightarrow> filename_of_parsed p = filename_of_parsed p'"
  by (simp add: filename_of_parsed_def)

lemma url_to_filename_suffix:
  assumes "qf_char c" "CHR ''?'' \<notin> set b" "CHR ''#'' \<notin> set b"
  shows "url_to_filename valid (b @ c # r) = url_to_filename valid b"
proof -
  from urlparse_suffix[OF assms, of valid r] obtain q f where
    "urlparse valid (b @ c # r) =
     (case urlparse valid b of Inl e \<Rightarrow> Inl e | Inr p \<Rightarrow> Inr (p\<lparr>query := q, fragment := f\<rparr>))"
    by blast
  then show ?thesis
    by (cases "urlparse valid b") (simp_all add: url_to_filename_def filename_of_parsed_def)
qed

text \<open>
  Claim C9. \<open>url_to_filename\<close> reads only the network location and the path of the
  parsed URL, so the query and the fragment do not change the name: a URL and the same URL
  followed by \<open>?\<close> or \<open>#\<close> and anything get the same name (or are both rejected by the
  URL parser). An empty path and the path \<open>/\<close> give the name of the path
  \<open>/index.html\<close>, and an empty network location gives the name of the host
  \<open>site\<close>. With file names taken from the URL, the output path of the two URLs is
  then the same, so the later capture writes over the earlier file.
\<close>

theorem url_to_filename_ignores_query_fragment:
  "filename_of_parsed (p\<lparr>query := q, fragment := f\<rparr>) = filename_of_parsed p
   \<and> (qf_char c \<and> CHR ''?'' \<notin> set b \<and> CHR ''#'' \<notin> set b \<longrightarrow>
        url_to_filename valid (b @ c # r) = url_to_filename valid b)
   \<and> filename_of_parsed (p\<lparr>path := []\<rparr>) = filename_of_parsed (p\<lparr>path := ''/index.html''\<rparr>)
   \<and> filename_of_parsed (p\<lparr>path := ''/''\<rparr>) = filename_of_parsed (p\<lparr>path := ''/index.html''\<rparr>)
   \<and> filename_of_parsed (p\<lparr>netloc := []\<rparr>) = filename_of_parsed (p\<lparr>netloc := ''site''\<rparr>)
   \<and> (qf_char c \<and> CHR ''?'' \<notin> set b \<and> CHR ''#'' \<notin> set b \<and> filename_from_url opts \<longrightarrow>
        out_path_of valid w opts (b @ c # r) = out_path_of valid w opts b)"
proof -
  have a: "filename_of_parsed (p\<lparr>query := q, fragment := f\<rparr>) = filename_of_parsed p"
    by (rule filename_of_parsed_fields) simp_all
  have b: "url_to_filename valid (b @ c # r) = url_to_filename valid b"
    if "qf_char c \<and> CHR ''?'' \<notin> set b \<and> CHR ''#'' \<notin> set b"
    using that by (intro url_to_filename_suffix) simp_all
  have c: "filename_of_parsed (p\<lparr>path := []\<rparr>) = filename_of_parsed (p\<lparr>path := ''/index.html''\<rparr>)"
    by (simp add: filename_of_parsed_def endswith_def)
  have d: "filename_of_parsed (p\<lparr>path := ''/''\<rparr>) = filename_of_parsed (p\<lparr>path := ''/index.html''\<rparr>)"
    by (simp add: filename_of_parsed_def endswith_def)
  have e: "filename_of_parsed (p\<lparr>netloc := []\<rparr>) = filename_of_parsed (p\<lparr>netloc := ''site''\<rparr>)"
    by (simp add: filename_of_parsed_def)
  have f: "out_path_of valid w opts (b @ c # r) = out_path_of valid w opts b"
    if "qf_char c \<and> CHR ''?'' \<notin> set b \<and> CHR ''#'' \<notin> set b \<and> filename_from_url opts"
    using that b by (simp add: out_path_of_def)
  from a b c d e f show ?thesis by blast
qed

theorem url_to_filename_ignores_query_fragment_witness:
  "url_to_filename (\<lambda>_. True) (''https://example.com/a/b.html'' @ CHR ''?'' # ''x=1#top'')
     = url_to_filename (\<lambda>_. True) ''https://example.com/a/b.html''"
proof -
  have h: "qf_char (CHR ''?'') \<and> CHR ''?'' \<notin> set ''https://example.com/a/b.html''
      \<and> CHR ''#'' \<notin> set ''https://example.com/a/b.html''"
    by (simp add: qf_char_def)
  note T = url_to_filename_ignores_query_fragment
    [where c = "CHR ''?''" and b = "''https://example.com/a/b.html''" and valid = "\<lambda>_. True"
       and r = "''x=1#top''"]
  show ?thesis using mp[OF T[THEN conjunct2, THEN conjunct1] h] .
qed

section \<open>Parsing site rules\<close>

lemma star_greedy_fail:
  "(\<And>n. k (drop n s) = None) \<Longrightarrow> star_greedy cls s k = None"
proof (induction s)
  case Nil
  then show ?case using Nil[of 0] by simp
next
  case (Cons x xs)
  have "k (drop n xs) = None" for n using Cons.prems[of "Suc n"] by simp
  then have "star_greedy cls xs k = None" by (rule Cons.IH)
  moreover have "k (x # xs) = None" using Cons.prems[of 0] by simp
  ultimately show ?case by simp
qed

lemma star_lazy_fail:
  "(\<And>n. k (drop n s) = None) \<Longrightarrow> star_lazy cls s k = None"
proof (induction s)
  case Nil
  then show ?case using Nil[of 0] by simp
next
  case (Cons x xs)
  have "k (drop n xs) = None" for n using Cons.prems[of "Suc n"] by simp
  then have "star_lazy cls xs k = None" by (rule Cons.IH)
  moreover have "k (x # xs) = None" using Cons.prems[of 0] by simp
  ultimately show ?case by simp
qed

lemma rmatch_fail:
  "(\<And>n g'. k (drop n s) g' = None) \<Longrightarrow> rmatch r s g k = None"
proof (induction r arbitrary: s g k)
  case (Lit l)
  then show ?case by simp
next
  case (Plus cls)
  show ?case
  proof (cases s)
    case Nil
    then show ?thesis by simp
  next
    case (Cons x xs)
    have "k (drop n xs) g = None" for n using Plus[of "Suc n" g] Cons by simp
    then have "star_greedy cls xs (\<lambda>s'. k s' g) = None" by (intro star_greedy_fail)
    then show ?thesis using Cons by simp
  qed
next
  case (Star cls)
  then show ?case by (simp add: star_greedy_fail)
next
  case (StarLazy cls)
  then show ?case by (simp add: star_lazy_fail)
next
  case (Opt r)
  have "k s g = None" using Opt.prems[of 0 g] by simp
  moreover have "rmatch r s g k = None" using Opt.prems by (intro Opt.IH)
  ultimately show ?case by simp
next
  case (Group name r)
  show ?case using Group.prems by (simp add: Group.IH)
next
  case (Seq r1 r2)
  have "rmatch r2 (drop n s) g' k = None" for n g'
  proof (rule Seq.IH(2))
    fix m g''
    show "k (drop m (drop n s)) g'' = None" using Seq.prems[of "m + n" g''] by (simp add: add.commute)
  qed
  then show ?case by (simp add: Seq.IH(1))
qed

lemma rmatch_seq_never:
  fixes k :: "string \<Rightarrow> groups \<Rightarrow> 'r option"
  assumes a: "\<And>n g (k :: string \<Rightarrow> groups \<Rightarrow> 'r option). rmatch r2 (drop n s) g k = None"
  shows "rmatch (Seq r1 r2) (drop n s) g k = None"
proof -
  have "rmatch r1 (drop n s) g (\<lambda>s' g'. rmatch r2 s' g' k) = None"
  proof (rule rmatch_fail)
    fix m g'
    show "rmatch r2 (drop m (drop n s)) g' k = None" using a[of "m + n" g' k] by (simp add: add.commute)
  qed
  then show ?thesis by simp
qed

lemma finditer_none:
  "(\<And>n. match_here r (drop n s) = None) \<Longrightarrow> finditer r s = []"
proof (induction s)
  case Nil
  then show ?case using Nil[of 0] by simp
next
  case (Cons x xs)
  have "match_here r (drop n xs) = None" for n using Cons.prems[of "Suc n"] by simp
  then have "finditer r xs = []" by (rule Cons.IH)
  moreover have "match_here r (x # xs) = None" using Cons.prems[of 0] by simp
  ultimately show ?case by (subst finditer.simps) simp
qed

lemma lit_never:
  "\<not> occurs_ci l s \<Longrightarrow> rmatch (Lit l) (drop n s) g k = None"
proof (induction s arbitrary: n)
  case Nil
  then show ?case by simp
next
  case (Cons x xs)
  show ?case
  proof (cases n)
    case 0
    with Cons.prems show ?thesis by auto
  next
    case (Suc m)
    with Cons show ?thesis by simp
  qed
qed

lemma parse_site_rules_no_terminator:
  assumes "\<not> occurs_ci ''@end'' text"
  shows "parse_site_rules text = []"
proof -
  have e: "rmatch (Lit ''@end'') (drop n text) g k = None"
    for n g and k :: "string \<Rightarrow> groups \<Rightarrow> (string \<times> groups) option"
    using assms by (rule lit_never)
  have "rmatch site_rule_pattern (drop n text) g k = None"
    for n g and k :: "string \<Rightarrow> groups \<Rightarrow> (string \<times> groups) option"
    unfolding site_rule_pattern_def
    by (intro rmatch_seq_never e)
  then have "match_here site_rule_pattern (drop n text) = None" for n
    by (simp add: match_here_def)
  then have "finditer site_rule_pattern text = []" by (rule finditer_none)
  then show ?thesis by (simp add: parse_site_rules_def)
qed

text \<open>
  Claim C3. A block with only a JS section, written as the program documents its blocks
  (one line break after the domain), yields no rule: the pattern reads the white space
  after the domain with \<open>\s+\<close> and then asks for white space again in front of
  \<open>JS:\<close>. With a CSS section in front, or with a second white-space character after
  the domain, the JS section is read. A block with only a CSS section yields one rule
  with an empty \<open>js\<close>, and a block without \<open>@end\<close> yields no rule.
\<close>

theorem parse_site_rules_js_only_block:
  "parse_site_rules ''@domain example.com\<newline>JS:\<newline>alert(1)\<newline>@end'' = []
   \<and> parse_site_rules ''@domain example.com\<newline>\<newline>JS:\<newline>alert(1)\<newline>@end''
       = [\<lparr>domain = ''example.com'', css = [], js = ''alert(1)''\<rparr>]
   \<and> parse_site_rules ''@domain example.com\<newline>CSS:\<newline>body{}\<newline>JS:\<newline>alert(1)\<newline>@end''
       = [\<lparr>domain = ''example.com'', css = ''body{}'', js = ''alert(1)''\<rparr>]
   \<and> parse_site_rules ''@domain example.com\<newline>CSS:\<newline>body{}\<newline>@end''
       = [\<lparr>domain = ''example.com'', css = ''body{}'', js = []\<rparr>]
   \<and> parse_site_rules ''@domain example.com\<newline>CSS:\<newline>body{}\<newline>'' = []"
  by code_simp

section \<open>CAPTCHA detection: the provider\<close>

lemma set_push_if:
  "(\<exists>s \<in> set (push_if b x sigs). P s) \<longleftrightarrow> (b \<and> P x) \<or> (\<exists>s \<in> set sigs. P s)"
  by (auto simp: push_if_def)

lemma mem_push_if: "y \<in> set (push_if b x sigs) \<longleftrightarrow> (b \<and> y = x) \<or> y \<in> set sigs"
  by (auto simp: push_if_def)

lemma push_if_Nil: "push_if b x sigs = [] \<longleftrightarrow> \<not> b \<and> sigs = []"
  by (auto simp: push_if_def)

lemma detect_js_provider_def:
  "provider (detect_js d) =
     (if \<exists>s \<in> set (signals (detect_js d)). str_includes s ''cloudflare'' then ''cloudflare''
      else if \<exists>s \<in> set (signals (detect_js d)). str_includes s ''recaptcha'' then ''recaptcha''
      else if \<exists>s \<in> set (signals (detect_js d)). str_includes s ''hcaptcha'' then ''hcaptcha''
      else if found (detect_js d) then ''generic''
      else ''unknown'')"
  by (simp only: detect_js_def Let_def detection.select_convs)

lemma detect_js_found: "found (detect_js d) \<longleftrightarrow> signals (detect_js d) \<noteq> []"
  by (simp only: detect_js_def Let_def detection.select_convs length_greater_0_conv)

lemma signal_names_cloudflare:
  "str_includes ''text: verify you are human'' ''cloudflare'' = False"
  "str_includes ''text: i'm not a robot'' ''cloudflare'' = False"
  "str_includes ''text: checking your browser'' ''cloudflare'' = False"
  "str_includes ''text: security check'' ''cloudflare'' = False"
  "str_includes ''title: just a moment'' ''cloudflare'' = False"
  "str_includes ''title: attention required'' ''cloudflare'' = False"
  "str_includes ''cloudflare selectors'' ''cloudflare'' = True"
  "str_includes ''recaptcha selectors'' ''cloudflare'' = False"
  "str_includes ''hcaptcha selectors'' ''cloudflare'' = False"
  by code_simp+

lemma signal_names_recaptcha:
  "str_includes ''text: verify you are human'' ''recaptcha'' = False"
  "str_includes ''text: i'm not a robot'' ''recaptcha'' = False"
  "str_includes ''text: checking your browser'' ''recaptcha'' = False"
  "str_includes ''text: security check'' ''recaptcha'' = False"
  "str_includes ''title: just a moment'' ''recaptcha'' = False"
  "str_includes ''title: attention required'' ''recaptcha'' = False"
  "str_includes ''cloudflare selectors'' ''recaptcha'' = False"
  "str_includes ''recaptcha selectors'' ''recaptcha'' = True"
  "str_includes ''hcaptcha selectors'' ''recaptcha'' = False"
  by code_simp+

lemma signal_names_hcaptcha:
  "str_includes ''text: verify you are human'' ''hcaptcha'' = False"
  "str_includes ''text: i'm not a robot'' ''hcaptcha'' = False"
  "str_includes ''text: checking your browser'' ''hcaptcha'' = False"
  "str_includes ''text: security check'' ''hcaptcha'' = False"
  "str_includes ''title: just a moment'' ''hcaptcha'' = False"
  "str_includes ''title: attention required'' ''hcaptcha'' = False"
  "str_includes ''cloudflare selectors'' ''hcaptcha'' = False"
  "str_includes ''recaptcha selectors'' ''hcaptcha'' = False"
  "str_includes ''hcaptcha selectors'' ''hcaptcha'' = True"
  by code_simp+

lemma signals_include_cloudflare:
  "(\<exists>s \<in> set (signals (detect_js d)). str_includes s ''cloudflare'') \<longleftrightarrow>
     (''#cf-challenge'' \<in> set (doc_selectors d) \<or> ''#challenge-form'' \<in> set (doc_selectors d)
      \<or> ''#challenge-stage'' \<in> set (doc_selectors d)
      \<or> ''iframe[src*='challenges.cloudflare.com']'' \<in> set (doc_selectors d)
      \<or> str_includes (lower (case doc_body d of None \<Rightarrow> [] | Some t \<Rightarrow> t)) ''cloudflare'')"
  by (simp only: detect_js_def Let_def detection.select_convs set_push_if signal_names_cloudflare
      simp_thms list.set bex_empty)

lemma signals_include_recaptcha:
  "(\<exists>s \<in> set (signals (detect_js d)). str_includes s ''recaptcha'') \<longleftrightarrow>
     (''iframe[src*='www.google.com/recaptcha']'' \<in> set (doc_selectors d)
      \<or> ''.g-recaptcha'' \<in> set (doc_selectors d)
      \<or> str_includes (lower (case doc_body d of None \<Rightarrow> [] | Some t \<Rightarrow> t)) ''recaptcha'')"
  by (simp only: detect_js_def Let_def detection.select_convs set_push_if signal_names_recaptcha
      simp_thms list.set bex_empty)

lemma signals_include_hcaptcha:
  "(\<exists>s \<in> set (signals (detect_js d)). str_includes s ''hcaptcha'') \<longleftrightarrow>
     (''iframe[src*='hcaptcha.com']'' \<in> set (doc_selectors d)
      \<or> str_includes (lower (case doc_body d of None \<Rightarrow> [] | Some t \<Rightarrow> t)) ''hcaptcha'')"
  by (simp only: detect_js_def Let_def detection.select_convs set_push_if signal_names_hcaptcha
      simp_thms list.set bex_empty)

lemma signals_mem_cloudflare:
  "''cloudflare selectors'' \<in> set (signals (detect_js d)) \<longleftrightarrow>
     (''#cf-challenge'' \<in> set (doc_selectors d) \<or> ''#challenge-form'' \<in> set (doc_selectors d)
      \<or> ''#challenge-stage'' \<in> set (doc_selectors d)
      \<or> ''iframe[src*='challenges.cloudflare.com']'' \<in> set (doc_selectors d)
      \<or> str_includes (lower (case doc_body d of None \<Rightarrow> [] | Some t \<Rightarrow> t)) ''cloudflare'')"
  unfolding detect_js_def Let_def detection.select_convs
  by (simp add: mem_push_if del: str_includes.simps)

lemma signals_mem_checking:
  "''text: checking your browser'' \<in> set (signals (detect_js d)) \<longleftrightarrow>
     str_includes (lower (case doc_body d of None \<Rightarrow> [] | Some t \<Rightarrow> t))
       ''checking your browser before accessing''"
  unfolding detect_js_def Let_def detection.select_convs
  by (simp add: mem_push_if del: str_includes.simps)


lemma provider_cloudflare_iff:
  "provider (detect_js d) = ''cloudflare'' \<longleftrightarrow>
     (\<exists>s \<in> set (signals (detect_js d)). str_includes s ''cloudflare'')"
  by (simp add: detect_js_provider_def del: str_includes.simps)

lemma only_checking_generic:
  assumes "signals (detect_js d) = [''text: checking your browser'']"
  shows "provider (detect_js d) = ''generic''"
  unfolding detect_js_provider_def detect_js_found assms
  by (simp only: list.set bex_simps bex_empty simp_thms signal_names_cloudflare
      signal_names_recaptcha signal_names_hcaptcha if_False if_True list.simps)

text \<open>
  Claim C2, amended. For a page whose body text contains the phrase "checking your browser
  before accessing", \<open>detect_captcha\<close> returns \<open>found = true\<close> and collects the signal
  \<open>text: checking your browser\<close>. The provider is assigned by the precedence cloudflare,
  recaptcha, hcaptcha, generic, unknown over the collected signal strings; that signal
  string does not contain "cloudflare", so with no other signal the provider is
  \<open>generic\<close>. The provider is \<open>cloudflare\<close> exactly when the signal
  \<open>cloudflare selectors\<close> is collected: one of the Cloudflare challenge elements is
  present or the body text contains "cloudflare".
\<close>

theorem detect_captcha_checking_browser:
  "(str_includes (lower (case doc_body d of None \<Rightarrow> [] | Some t \<Rightarrow> t))
        ''checking your browser before accessing'' \<longrightarrow>
      found (detect_captcha (Some d))
      \<and> ''text: checking your browser'' \<in> set (signals (detect_captcha (Some d))))
   \<and> (signals (detect_captcha (Some d)) = [''text: checking your browser''] \<longrightarrow>
        provider (detect_captcha (Some d)) = ''generic'')
   \<and> (provider (detect_captcha (Some d)) = ''cloudflare'' \<longleftrightarrow>
        ''cloudflare selectors'' \<in> set (signals (detect_captcha (Some d))))
   \<and> (''cloudflare selectors'' \<in> set (signals (detect_captcha (Some d))) \<longleftrightarrow>
        ''#cf-challenge'' \<in> set (doc_selectors d) \<or> ''#challenge-form'' \<in> set (doc_selectors d)
        \<or> ''#challenge-stage'' \<in> set (doc_selectors d)
        \<or> ''iframe[src*='challenges.cloudflare.com']'' \<in> set (doc_selectors d)
        \<or> str_includes (lower (case doc_body d of None \<Rightarrow> [] | Some t \<Rightarrow> t)) ''cloudflare'')
   \<and> provider (detect_captcha (Some d)) =
       (if \<exists>s \<in> set (signals (detect_captcha (Some d))). str_includes s ''cloudflare''
        then ''cloudflare''
        else if \<exists>s \<in> set (signals (detect_captcha (Some d))). str_includes s ''recaptcha''
        then ''recaptcha''
        else if \<exists>s \<in> set (signals (detect_captcha (Some d))). str_includes s ''hcaptcha''
        then ''hcaptcha''
        else if found (detect_captcha (Some d)) then ''generic''
        else ''unknown'')"
proof -
  have r: "detect_captcha (Some d) = detect_js d" by (simp add: detect_captcha_def)
  have a: "found (detect_js d) \<and> ''text: checking your browser'' \<in> set (signals (detect_js d))"
    if "str_includes (lower (case doc_body d of None \<Rightarrow> [] | Some t \<Rightarrow> t))
        ''checking your browser before accessing''"
  proof -
    have m: "''text: checking your browser'' \<in> set (signals (detect_js d))"
      using that by (simp only: signals_mem_checking)
    then have "signals (detect_js d) \<noteq> []" by auto
    with m show ?thesis by (simp only: detect_js_found simp_thms)
  qed
  have b: "provider (detect_js d) = ''cloudflare'' \<longleftrightarrow>
        ''cloudflare selectors'' \<in> set (signals (detect_js d))"
    by (simp only: provider_cloudflare_iff signals_include_cloudflare signals_mem_cloudflare)
  show ?thesis
    unfolding r
    using a b only_checking_generic[of d] signals_mem_cloudflare[of d] detect_js_provider_def[of d]
    by blast
qed

theorem detect_captcha_checking_browser_witness:
  "found (detect_captcha (Some \<lparr>doc_title = ''Please wait'',
       doc_body = Some ''Checking your browser before accessing the site.'', doc_selectors = []\<rparr>))
   \<and> provider (detect_captcha (Some \<lparr>doc_title = ''Please wait'',
       doc_body = Some ''Checking your browser before accessing the site.'', doc_selectors = []\<rparr>))
     = ''generic''"
proof -
  let ?d = "\<lparr>doc_title = ''Please wait'',
       doc_body = Some ''Checking your browser before accessing the site.'', doc_selectors = []\<rparr>"
  have h: "str_includes (lower (case doc_body ?d of None \<Rightarrow> [] | Some t \<Rightarrow> t))
        ''checking your browser before accessing''"
    by code_simp
  have s: "signals (detect_captcha (Some ?d)) = [''text: checking your browser'']"
    by code_simp
  note T = detect_captcha_checking_browser[of ?d]
  have "found (detect_captcha (Some ?d))"
    using mp[OF T[THEN conjunct1] h] by (rule conjunct1)
  moreover have "provider (detect_captcha (Some ?d)) = ''generic''"
    using mp[OF T[THEN conjunct2, THEN conjunct1] s] .
  ultimately show ?thesis by (rule conjI)
qed

text \<open>
  The claim as it was stated fails: this page shows the phrase and no other signal, and
  the provider is \<open>generic\<close>, not \<open>cloudflare\<close>.
\<close>

theorem detect_captcha_checking_browser_counterexample:
  "detect_captcha (Some \<lparr>doc_title = ''example.com'',
       doc_body = Some ''Checking your browser before accessing example.com.'',
       doc_selectors = []\<rparr>)
     = \<lparr>found = True, provider = ''generic'', signals = [''text: checking your browser'']\<rparr>
   \<and> ''generic'' \<noteq> ''cloudflare''"
  by code_simp

section \<open>Capturing one URL: the handoff episode and the fallbacks\<close>

lemma then_do_simps:
  "then_do (ev, Returned x) f = (ev @ fst (f x), snd (f x))"
  "then_do (ev, Raised e) f = (ev, Raised e)"
  "then_do (ev, Hangs) f = (ev, Hangs)"
  by (simp_all add: then_do_def split_beta)

lemma then_do_returns: "then_do (returns x) f = f x"
  by (simp add: then_do_def returns_def split_beta)

lemma then_do_guarded: "then_do (guarded ev) f = (ev # fst (f ()), snd (f ()))"
  by (simp add: then_do_def guarded_def split_beta)

lemma then_do_call:
  "then_do (call ev None) f = (ev # fst (f ()), snd (f ()))"
  "then_do (call ev (Some e)) f = ([ev], Raised e)"
  by (simp_all add: then_do_def call_def split_beta)

lemma then_do_call_for:
  "then_do (call_for ev (Inr x)) f = (ev # fst (f x), snd (f x))"
  "then_do (call_for ev (Inl e)) f = ([ev], Raised e)"
  by (simp_all add: then_do_def call_for_def split_beta)

lemma fst_then_do_Returned:
  "snd m = Returned x \<Longrightarrow> then_do m f = (fst m @ fst (f x), snd (f x))"
  by (cases m) (simp add: then_do_simps)

lemma close_visible_run:
  "snd (close_visible w) = Returned ()"
  "count_list (fst (close_visible w)) CloseContext = 1"
  "fst (close_visible w) = CloseContext # (if close_context w = None then [CloseBrowser] else [])"
  by (simp_all add: close_visible_def split: option.splits)

lemma navigate_timeout:
  "navigate (w\<lparr>goto1 := Some PlaywrightTimeout\<rparr>) = navigate (w\<lparr>goto1 := None\<rparr>)"
  by (simp add: navigate_def)


lemma handoff_skip:
  assumes "launch w = None" "new_context w = None" "new_page w = None"
    and "prompt w = Answer a" "a \<noteq> ''continue''"
  shows "handoff fl w opts out_path =
     ([LaunchVisible, NewContext, ImportCookies, NewPage, Goto Visible, PromptHuman]
        @ fst (close_visible w), Returned None)"
  using assms
  by (simp add: handoff_def then_do_call then_do_guarded ask_human_def then_do_simps
      fst_then_do_Returned[OF close_visible_run(1)] then_do_returns returns_def)


lemma print_setup_outcome:
  "print_setup fl opts em ht =
     (case em of
        Some e \<Rightarrow> ([EmulateMedia], Raised e)
      | None \<Rightarrow>
          if exact_single_page opts then
            (case ht of
               Inl e \<Rightarrow> ([EmulateMedia, QueryHeight], Raised e)
             | Inr h \<Rightarrow> ([EmulateMedia, QueryHeight], Returned (pdf_kwargs fl opts h)))
          else ([EmulateMedia], Returned LetterFormat))"
  by (simp add: print_setup_def then_do_call then_do_call_for returns_def
      split: option.splits sum.splits)


lemma headless_capture_print:
  assumes "mode opts = Print" "prepare_headless w = None"
    and "print_setup fl opts (emulate_media_headless w) (content_height_headless w) = (ev, Returned fmt)"
    and "pdf_headless w = None"
  shows "snd (headless_capture fl w opts p) = Returned p"
    and "\<exists>c. Wrote p c \<in> set (fst (headless_capture fl w opts p))"
proof -
  have "headless_capture fl w opts p =
      (PreparePage Headless # ev @ [CallPdf p fmt, Wrote p (Printed fmt)], Returned p)"
    using assms
    by (simp add: headless_capture_def then_do_call then_do_simps page_pdf_def try_except_def
        returns_def)
  then show "snd (headless_capture fl w opts p) = Returned p"
    and "\<exists>c. Wrote p c \<in> set (fst (headless_capture fl w opts p))" by auto
qed

lemma paginated_total: "screenshot_to_paginated_letter_pdf fl img m \<noteq> None"
proof (cases "letter_geometry fl (img_width img) m")
  case (Inl e)
  then show ?thesis by (simp add: screenshot_to_paginated_letter_pdf_def)
next
  case (Inr g)
  from paginated_result[OF this] show ?thesis by auto
qed

lemma raster_to_file_no_hang: "snd (raster_to_file fl opts img sv p) \<noteq> Hangs"
  using paginated_total[of fl img "1 / 2"]
  by (auto simp: raster_to_file_def split: option.splits sum.splits)

lemma raster_to_file_no_close: "CloseContext \<notin> set (fst (raster_to_file fl opts img sv p))"
  by (auto simp: raster_to_file_def split: option.splits sum.splits)

lemma print_setup_no_close: "count_list (fst (print_setup fl opts em ht)) CloseContext = 0"
  by (simp add: print_setup_outcome split: option.splits sum.splits)

lemma print_after_solve_closes:
  "(\<exists>ev. print_after_solve fl w opts p = (ev, Returned (Some p)) \<and> count_list ev CloseContext = 1)
   \<or> (\<exists>ev. print_after_solve fl w opts p = (ev, Returned None) \<and> count_list ev CloseContext = 0)"
proof -
  have sb: "\<exists>ev b. still_blocked w = (ev, Returned b) \<and> count_list ev CloseContext = 0"
    by (auto simp: still_blocked_def split: option.splits)
  then obtain ev0 b where sb: "still_blocked w = (ev0, Returned b)" "count_list ev0 CloseContext = 0"
    by blast
  show ?thesis
  proof (cases b)
    case True
    then show ?thesis using sb
      by (simp add: print_after_solve_def then_do_simps returns_def)
  next
    case False
    show ?thesis
    proof (cases "prepare_h w")
      case (Some e)
      then show ?thesis using sb False
        by (simp add: print_after_solve_def then_do_simps then_do_call try_except_def returns_def)
    next
      case None
      obtain ev1 r1 where ps: "print_setup fl opts (emulate_media_h w) (content_height_h w) = (ev1, r1)"
        by fastforce
      have c1: "count_list ev1 CloseContext = 0"
        using print_setup_no_close[of fl opts "emulate_media_h w" "content_height_h w"] ps by simp
      have nh: "r1 \<noteq> Hangs"
        using ps by (auto simp: print_setup_outcome split: option.splits sum.splits if_splits)
      show ?thesis
      proof (cases r1)
        case (Returned fmt)
        show ?thesis
        proof (cases "pdf_h w")
          case None': None
          show ?thesis using sb False None ps Returned None' c1
            by (simp add: print_after_solve_def then_do_simps then_do_call try_except_def
                returns_def page_pdf_def fst_then_do_Returned[OF close_visible_run(1)]
                close_visible_run(3))
        next
          case (Some e)
          show ?thesis using sb False None ps Returned Some c1
            by (simp add: print_after_solve_def then_do_simps then_do_call try_except_def
                returns_def page_pdf_def)
        qed
      next
        case (Raised e)
        show ?thesis using sb False None ps Raised c1
          by (simp add: print_after_solve_def then_do_simps then_do_call try_except_def returns_def)
      next
        case Hangs
        with nh show ?thesis by simp
      qed
    qed
  qed
qed

lemma screenshot_visible_page_closes:
  "\<exists>ev r. screenshot_visible_page fl w opts p = (ev, Returned r) \<and> count_list ev CloseContext = 1"
proof (cases "prepare_visible w")
  case (Some e)
  then show ?thesis
    by (simp add: screenshot_visible_page_def then_do_call try_except_def
        fst_then_do_Returned[OF close_visible_run(1)] returns_def close_visible_run(3))
next
  case None
  show ?thesis
  proof (cases "screenshot_visible w")
    case (Inl e)
    then show ?thesis using None
      by (simp add: screenshot_visible_page_def then_do_call then_do_call_for try_except_def
          fst_then_do_Returned[OF close_visible_run(1)] returns_def close_visible_run(3))
  next
    case (Inr img)
    obtain ev1 r1 where rf: "raster_to_file fl opts img (save_visible w) p = (ev1, r1)" by fastforce
    have nc: "count_list ev1 CloseContext = 0"
      using raster_to_file_no_close[of fl opts img "save_visible w" p] rf
      by (simp add: count_list_0_iff)
    have nh: "r1 \<noteq> Hangs" using raster_to_file_no_hang[of fl opts img "save_visible w" p] rf by simp
    show ?thesis
    proof (cases r1)
      case (Returned u)
      show ?thesis using None Inr rf Returned nc
        by (simp add: screenshot_visible_page_def then_do_call then_do_call_for try_except_def
            then_do_simps fst_then_do_Returned[OF close_visible_run(1)] returns_def
            close_visible_run(3))
    next
      case (Raised e)
      show ?thesis using None Inr rf Raised nc
        by (simp add: screenshot_visible_page_def then_do_call then_do_call_for try_except_def
            then_do_simps fst_then_do_Returned[OF close_visible_run(1)] returns_def
            close_visible_run(3))
    next
      case Hangs
      with nh show ?thesis by simp
    qed
  qed
qed

text \<open>
  Once the human has answered, every way through the episode closes the visible context
  exactly once, and the episode raises nothing.
\<close>

lemma handoff_closes_once:
  assumes "launch w = None" "new_context w = None" "new_page w = None" "prompt w = Answer a"
  shows "\<exists>ev r. handoff fl w opts p = (ev, Returned r) \<and> count_list ev CloseContext = 1"
proof (cases "a = ''continue''")
  case False
  show ?thesis
    using handoff_skip[OF assms False, of fl opts p] by (simp add: close_visible_run(3))
next
  case True
  have h: "handoff fl w opts p =
      then_do ([LaunchVisible, NewContext, ImportCookies, NewPage, Goto Visible, PromptHuman,
                ExportState], Returned ())
        (\<lambda>_. then_do (if mode opts = Print then print_after_solve fl w opts p else returns None)
           (\<lambda>r. case r of Some q \<Rightarrow> returns (Some q)
                          | None \<Rightarrow> screenshot_visible_page fl w opts p))"
    using assms True
    by (simp add: handoff_def then_do_call then_do_guarded ask_human_def then_do_simps)
  from screenshot_visible_page_closes[of fl w opts p] obtain ev2 r2 where
    sv: "screenshot_visible_page fl w opts p = (ev2, Returned r2)" "count_list ev2 CloseContext = 1"
    by blast
  show ?thesis
  proof (cases "mode opts = Print")
    case False
    then show ?thesis unfolding h using sv
      by (simp add: then_do_simps then_do_returns)
  next
    case True
    from print_after_solve_closes[of fl w opts p] show ?thesis
    proof
      assume "\<exists>ev. print_after_solve fl w opts p = (ev, Returned (Some p)) \<and> count_list ev CloseContext = 1"
      then show ?thesis unfolding h using True
        by (auto simp: then_do_simps returns_def)
    next
      assume "\<exists>ev. print_after_solve fl w opts p = (ev, Returned None) \<and> count_list ev CloseContext = 0"
      then show ?thesis unfolding h using True sv
        by (auto simp: then_do_simps returns_def)
    qed
  qed
qed

text \<open>
  Claim C7. The episode does not close the visible session on every way out: when opening
  the context or the page of the visible browser raises, or the call that asks the human
  raises, \<open>capture_one\<close> ends with that exception after the browser has been launched
  and closes nothing. Here these are the three runs, on a page with a CAPTCHA.
\<close>

theorem visible_session_not_closed_on_setup_error:
  "capture_one (\<lambda>x. x) (\<lambda>_. True)
      (calm_world\<lparr>page1 := Some gate_page, new_page := Some PlaywrightError\<rparr>) print_letter
      ''https://example.com/a''
     = ([Goto Headless, Detect, LaunchVisible, NewContext, ImportCookies, NewPage],
        Raised PlaywrightError)
   \<and> capture_one (\<lambda>x. x) (\<lambda>_. True)
      (calm_world\<lparr>page1 := Some gate_page, new_context := Some PlaywrightError\<rparr>) print_letter
      ''https://example.com/a''
     = ([Goto Headless, Detect, LaunchVisible, NewContext], Raised PlaywrightError)
   \<and> capture_one (\<lambda>x. x) (\<lambda>_. True)
      (calm_world\<lparr>page1 := Some gate_page, prompt := PromptRaises PlaywrightError\<rparr>) print_letter
      ''https://example.com/a''
     = ([Goto Headless, Detect, LaunchVisible, NewContext, ImportCookies, NewPage, Goto Visible,
         PromptHuman], Raised PlaywrightError)"
  by code_simp

lemma close_visible_goto1: "close_visible (w\<lparr>goto1 := x\<rparr>) = close_visible w"
  by (simp add: close_visible_def cong: if_cong option.case_cong sum.case_cong human.case_cong)

lemma ask_human_goto1: "ask_human (w\<lparr>goto1 := x\<rparr>) = ask_human w"
  by (simp add: ask_human_def cong: if_cong option.case_cong sum.case_cong human.case_cong)

lemma still_blocked_goto1: "still_blocked (w\<lparr>goto1 := x\<rparr>) = still_blocked w"
  by (simp add: still_blocked_def cong: if_cong option.case_cong sum.case_cong human.case_cong)

lemma print_after_solve_goto1:
  "print_after_solve fl (w\<lparr>goto1 := x\<rparr>) opts p = print_after_solve fl w opts p"
  by (simp add: print_after_solve_def still_blocked_goto1 close_visible_goto1 cong: if_cong option.case_cong sum.case_cong human.case_cong)

lemma screenshot_visible_page_goto1:
  "screenshot_visible_page fl (w\<lparr>goto1 := x\<rparr>) opts p = screenshot_visible_page fl w opts p"
  by (simp add: screenshot_visible_page_def close_visible_goto1 cong: if_cong option.case_cong sum.case_cong human.case_cong)

lemma handoff_goto1: "handoff fl (w\<lparr>goto1 := x\<rparr>) opts p = handoff fl w opts p"
  by (simp add: handoff_def print_after_solve_goto1 screenshot_visible_page_goto1
      close_visible_goto1 ask_human_goto1 cong: if_cong option.case_cong sum.case_cong human.case_cong)

lemma headless_capture_goto1:
  "headless_capture fl (w\<lparr>goto1 := x\<rparr>) opts p = headless_capture fl w opts p"
  by (simp add: headless_capture_def cong: if_cong option.case_cong sum.case_cong human.case_cong)

lemma normal_path_goto1:
  "normal_path fl valid (w\<lparr>goto1 := x\<rparr>) opts url p = normal_path fl valid w opts url p"
  by (simp add: normal_path_def headless_capture_goto1 cong: if_cong option.case_cong sum.case_cong human.case_cong)

lemma capture_one_goto1:
  "navigate (w\<lparr>goto1 := x\<rparr>) = navigate (w\<lparr>goto1 := y\<rparr>) \<Longrightarrow>
     capture_one fl valid (w\<lparr>goto1 := x\<rparr>) opts url = capture_one fl valid (w\<lparr>goto1 := y\<rparr>) opts url"
  by (simp add: capture_one_def out_path_of_def handoff_goto1 normal_path_goto1 cong: if_cong option.case_cong sum.case_cong human.case_cong)

lemma headless_capture_print_fallback:
  assumes "mode opts = Print" "prepare_headless w = None"
    and "print_setup fl opts (emulate_media_headless w) (content_height_headless w) = (ev, Returned fmt)"
    and "pdf_headless w = Some e0"
  shows "headless_capture fl w opts p =
     (case screenshot_headless w of
        Inl e \<Rightarrow> (PreparePage Headless # ev @ [CallPdf p fmt, TakeScreenshot Headless], Raised e)
      | Inr img \<Rightarrow>
          (PreparePage Headless # ev @ [CallPdf p fmt, TakeScreenshot Headless]
             @ fst (raster_to_file fl opts img (save_headless w) p),
           case snd (raster_to_file fl opts img (save_headless w) p) of
             Returned u \<Rightarrow> Returned p | Raised e \<Rightarrow> Raised e | Hangs \<Rightarrow> Hangs))"
proof (cases "screenshot_headless w")
  case (Inl e)
  then show ?thesis using assms
    by (simp add: headless_capture_def then_do_call then_do_simps page_pdf_def try_except_def
        then_do_call_for)
next
  case (Inr img)
  obtain ev1 r1 where rf: "raster_to_file fl opts img (save_headless w) p = (ev1, r1)"
    by fastforce
  show ?thesis using assms Inr rf
    by (cases r1)
       (simp_all add: headless_capture_def then_do_call then_do_simps page_pdf_def try_except_def
          then_do_call_for returns_def)
qed

lemma headless_capture_print_raises:
  assumes "mode opts = Print" "prepare_headless w = None"
    and "print_setup fl opts (emulate_media_headless w) (content_height_headless w) = (ev, Returned fmt)"
  shows "snd (headless_capture fl w opts p) = Raised e \<longleftrightarrow>
     pdf_headless w \<noteq> None
     \<and> (screenshot_headless w = Inl e
        \<or> (\<exists>img. screenshot_headless w = Inr img
              \<and> snd (raster_to_file fl opts img (save_headless w) p) = Raised e))"
proof (cases "pdf_headless w")
  case None
  then show ?thesis using headless_capture_print(1)[OF assms None, of p] by simp
next
  case (Some e0)
  note H = headless_capture_print_fallback[OF assms Some, of p]
  show ?thesis
  proof (cases "screenshot_headless w")
    case (Inl e1)
    then show ?thesis unfolding H using Some by auto
  next
    case (Inr img)
    show ?thesis unfolding H using Some Inr
      by (cases "snd (raster_to_file fl opts img (save_headless w) p)") auto
  qed
qed

lemma headless_capture_print_screenshot:
  assumes "mode opts = Print" "prepare_headless w = None"
    and "print_setup fl opts (emulate_media_headless w) (content_height_headless w) = (ev, Returned fmt)"
    and "pdf_headless w \<noteq> None"
  shows "TakeScreenshot Headless \<in> set (fst (headless_capture fl w opts p))"
proof -
  from assms(4) obtain e0 where e0: "pdf_headless w = Some e0" by auto
  show ?thesis
    unfolding headless_capture_print_fallback[OF assms(1-3) e0]
    by (cases "screenshot_headless w") auto
qed

lemma raster_to_file_cases:
  "(\<exists>c. raster_to_file fl opts img sv p = ([Wrote p c], Returned ()))
   \<or> (\<exists>e. raster_to_file fl opts img sv p = ([], Raised e))"
  using paginated_total[of fl img "1 / 2"]
  by (auto simp: raster_to_file_def split: option.splits sum.splits)





lemma capture_one_navigation_error:
  assumes "out_path_of valid w opts url = Inr q" "goto1 w = Some e" "e \<noteq> PlaywrightTimeout"
  shows "capture_one fl valid w opts url = ([Goto Headless], Raised e)"
  using assms by (simp add: capture_one_def navigate_def then_do_simps)

lemma headless_capture_screenshot_mode:
  assumes "mode opts = Screenshot" "prepare_headless w = None"
  shows "headless_capture fl w opts p =
     (case screenshot_headless w of
        Inl e \<Rightarrow> ([PreparePage Headless, TakeScreenshot Headless], Raised e)
      | Inr img \<Rightarrow>
          (PreparePage Headless # TakeScreenshot Headless
             # fst (raster_to_file fl opts img (save_headless w) p),
           case snd (raster_to_file fl opts img (save_headless w) p) of
             Returned u \<Rightarrow> Returned p | Raised e \<Rightarrow> Raised e | Hangs \<Rightarrow> Hangs))"
proof (cases "screenshot_headless w")
  case (Inl e)
  then show ?thesis using assms
    by (simp add: headless_capture_def then_do_call then_do_simps then_do_call_for)
next
  case (Inr img)
  obtain ev1 r1 where rf: "raster_to_file fl opts img (save_headless w) p = (ev1, r1)"
    by fastforce
  show ?thesis using assms Inr rf
    by (cases r1)
       (simp_all add: headless_capture_def then_do_call then_do_simps then_do_call_for returns_def)
qed

lemma headless_capture_screenshot_raises:
  assumes "mode opts = Screenshot" "prepare_headless w = None"
  shows "snd (headless_capture fl w opts p) = Raised e \<longleftrightarrow>
     screenshot_headless w = Inl e
     \<or> (\<exists>img. screenshot_headless w = Inr img
           \<and> snd (raster_to_file fl opts img (save_headless w) p) = Raised e)"
proof (cases "screenshot_headless w")
  case (Inl e1)
  then show ?thesis unfolding headless_capture_screenshot_mode[OF assms] by auto
next
  case (Inr img)
  show ?thesis unfolding headless_capture_screenshot_mode[OF assms] using Inr
    by (cases "snd (raster_to_file fl opts img (save_headless w) p)") auto
qed

lemma headless_capture_screenshot_no_pdf:
  assumes "mode opts = Screenshot"
  shows "CallPdf q fmt \<notin> set (fst (headless_capture fl w opts p))"
proof (cases "prepare_headless w")
  case (Some e)
  then show ?thesis by (simp add: headless_capture_def then_do_call)
next
  case None
  show ?thesis
  proof (cases "screenshot_headless w")
    case (Inl e)
    then show ?thesis unfolding headless_capture_screenshot_mode[OF assms None] by simp
  next
    case (Inr img)
    from raster_to_file_cases[of fl opts img "save_headless w" p] show ?thesis
      unfolding headless_capture_screenshot_mode[OF assms None] using Inr by auto
  qed
qed




text \<open>
  Claim C8, amended. A time-out of the first navigation is not fatal: the call goes on as
  after a navigation that succeeded. In print mode on the headless path, once the page
  has been prepared and the print format is known, a failure of \<open>page.pdf\<close> alone does not
  fail the call: the screenshot of the same page is taken, and the call raises exactly
  when \<open>page.pdf\<close> fails and the raster fallback (the screenshot or the building of the
  PDF from it) fails too. A navigation error that is not a time-out fails the call at
  once. In screenshot mode \<open>page.pdf\<close> is never called and the raster capture is the only
  strategy: on the prepared page the call raises exactly when the screenshot or the
  building of the PDF from it raises.
\<close>

theorem capture_one_print_falls_back:
  "capture_one fl valid (w\<lparr>goto1 := Some PlaywrightTimeout\<rparr>) opts url
     = capture_one fl valid (w\<lparr>goto1 := None\<rparr>) opts url
   \<and> (mode opts = Print \<and> prepare_headless w = None
       \<and> print_setup fl opts (emulate_media_headless w) (content_height_headless w)
           = (ev, Returned fmt) \<longrightarrow>
        (pdf_headless w = None \<longrightarrow> snd (headless_capture fl w opts p) = Returned p)
        \<and> (pdf_headless w \<noteq> None \<longrightarrow>
             TakeScreenshot Headless \<in> set (fst (headless_capture fl w opts p)))
        \<and> (snd (headless_capture fl w opts p) = Raised e \<longleftrightarrow>
             pdf_headless w \<noteq> None
             \<and> (screenshot_headless w = Inl e
                \<or> (\<exists>img. screenshot_headless w = Inr img
                      \<and> snd (raster_to_file fl opts img (save_headless w) p) = Raised e))))
   \<and> (out_path_of valid w opts url = Inr q \<and> goto1 w = Some e' \<and> e' \<noteq> PlaywrightTimeout \<longrightarrow>
        capture_one fl valid w opts url = ([Goto Headless], Raised e'))
   \<and> (mode opts = Screenshot \<longrightarrow>
        CallPdf q' fmt' \<notin> set (fst (headless_capture fl w opts p))
        \<and> (prepare_headless w = None \<longrightarrow>
             (snd (headless_capture fl w opts p) = Raised e \<longleftrightarrow>
                screenshot_headless w = Inl e
                \<or> (\<exists>img. screenshot_headless w = Inr img
                      \<and> snd (raster_to_file fl opts img (save_headless w) p) = Raised e))))"
proof -
  have a: "capture_one fl valid (w\<lparr>goto1 := Some PlaywrightTimeout\<rparr>) opts url
     = capture_one fl valid (w\<lparr>goto1 := None\<rparr>) opts url"
    by (rule capture_one_goto1) (rule navigate_timeout)
  have b: "(pdf_headless w = None \<longrightarrow> snd (headless_capture fl w opts p) = Returned p)
        \<and> (pdf_headless w \<noteq> None \<longrightarrow>
             TakeScreenshot Headless \<in> set (fst (headless_capture fl w opts p)))
        \<and> (snd (headless_capture fl w opts p) = Raised e \<longleftrightarrow>
             pdf_headless w \<noteq> None
             \<and> (screenshot_headless w = Inl e
                \<or> (\<exists>img. screenshot_headless w = Inr img
                      \<and> snd (raster_to_file fl opts img (save_headless w) p) = Raised e)))"
    if h: "mode opts = Print" "prepare_headless w = None"
      "print_setup fl opts (emulate_media_headless w) (content_height_headless w) = (ev, Returned fmt)"
    using headless_capture_print(1)[OF h, of p] headless_capture_print_screenshot[OF h, of p]
      headless_capture_print_raises[OF h, of p e]
    by blast
  have c: "capture_one fl valid w opts url = ([Goto Headless], Raised e')"
    if "out_path_of valid w opts url = Inr q" "goto1 w = Some e'" "e' \<noteq> PlaywrightTimeout"
    using that by (rule capture_one_navigation_error)
  have d: "CallPdf q' fmt' \<notin> set (fst (headless_capture fl w opts p))"
    if "mode opts = Screenshot"
    using that by (rule headless_capture_screenshot_no_pdf)
  have d': "snd (headless_capture fl w opts p) = Raised e \<longleftrightarrow>
                screenshot_headless w = Inl e
                \<or> (\<exists>img. screenshot_headless w = Inr img
                      \<and> snd (raster_to_file fl opts img (save_headless w) p) = Raised e)"
    if "mode opts = Screenshot" "prepare_headless w = None"
    using that by (rule headless_capture_screenshot_raises)
  from a b c d d' show ?thesis by blast
qed

theorem capture_one_print_falls_back_witness:
  "snd (headless_capture (\<lambda>x. x) (calm_world\<lparr>pdf_headless := Some PlaywrightError\<rparr>)
          print_letter ''out/example_com_a.pdf'') \<noteq> Raised PlaywrightError
   \<and> TakeScreenshot Headless \<in> set (fst (headless_capture (\<lambda>x. x)
          (calm_world\<lparr>pdf_headless := Some PlaywrightError\<rparr>) print_letter
          ''out/example_com_a.pdf''))"
proof -
  let ?w = "calm_world\<lparr>pdf_headless := Some PlaywrightError\<rparr>"
  let ?p = "''out/example_com_a.pdf''"
  have h: "mode print_letter = Print \<and> prepare_headless ?w = None
      \<and> print_setup (\<lambda>x. x) print_letter (emulate_media_headless ?w) (content_height_headless ?w)
          = ([EmulateMedia], Returned LetterFormat)"
    by code_simp
  have s: "screenshot_headless ?w = Inr plain_image" by (simp add: calm_world_def)
  have r: "snd (raster_to_file (\<lambda>x. x) print_letter plain_image (save_headless ?w) ?p)
      \<noteq> Raised PlaywrightError"
    by code_simp
  note T = mp[OF capture_one_print_falls_back
      [where w = ?w and opts = print_letter and fl = "\<lambda>x. x" and ev = "[EmulateMedia]"
         and fmt = LetterFormat and p = ?p and e = PlaywrightError,
       THEN conjunct2, THEN conjunct1] h]
  have "snd (headless_capture (\<lambda>x. x) ?w print_letter ?p) \<noteq> Raised PlaywrightError"
    using T[THEN conjunct2, THEN conjunct2] s r by simp
  moreover have "TakeScreenshot Headless \<in> set (fst (headless_capture (\<lambda>x. x) ?w print_letter ?p))"
    using T[THEN conjunct2, THEN conjunct1] by simp
  ultimately show ?thesis by (rule conjI)
qed

text \<open>
  The claim as it was stated fails: a navigation error that is not a time-out fails the
  call before either strategy has run, and in screenshot mode a failing screenshot fails
  the call although the print strategy has not failed.
\<close>

theorem capture_one_print_falls_back_counterexample:
  "capture_one (\<lambda>x. x) (\<lambda>_. True) (calm_world\<lparr>goto1 := Some PlaywrightError\<rparr>) print_letter
      ''https://example.com/a''
     = ([Goto Headless], Raised PlaywrightError)
   \<and> pdf_headless (calm_world\<lparr>goto1 := Some PlaywrightError\<rparr>) = None
   \<and> screenshot_headless (calm_world\<lparr>goto1 := Some PlaywrightError\<rparr>) = Inr plain_image
   \<and> capture_one (\<lambda>x. x) (\<lambda>_. True) (calm_world\<lparr>screenshot_headless := Inl PlaywrightError\<rparr>)
        (print_letter\<lparr>mode := Screenshot\<rparr>) ''https://example.com/a''
     = ([Goto Headless, Detect, PreparePage Headless, TakeScreenshot Headless],
        Raised PlaywrightError)"
  by code_simp

end
